theory Spec2Isabelle
  imports Complex_Main "HOL-Library.Log_Nat"
begin

section \<open>Data model (GodModeTypes as used by GodModeEngine.ts)\<close>

text \<open>
  The engine of \<^verbatim>\<open>src/lib/sota/GodModeEngine.ts\<close> is embedded with explicit state
  passing. Numbers that the source uses as counts are \<open>nat\<close>, scores and millisecond
  timestamps are \<open>int\<close>, and the value of \<^verbatim>\<open>Math.random()\<close> is a \<open>rat\<close>; the backoff
  delay is computed with the rounding of doubles.
\<close>

datatype priority = critical | high | medium | low

datatype item_source = scan | manual

record queue_item =
  item_id :: nat
  url :: string
  priority :: priority
  healthScore :: int
  addedAt :: int
  source :: item_source
  retryCount :: nat
  lastError :: "string option"

section \<open>sortQueue\<close>

text \<open>The table \<^verbatim>\<open>priorityOrder = { critical: 0, high: 1, medium: 2, low: 3 }\<close>.\<close>

fun priorityOrder :: "priority \<Rightarrow> int" where
  "priorityOrder critical = 0"
| "priorityOrder high = 1"
| "priorityOrder medium = 2"
| "priorityOrder low = 3"

text \<open>The comparator handed to \<^verbatim>\<open>this.queue.sort\<close>.\<close>

definition compareItems :: "queue_item \<Rightarrow> queue_item \<Rightarrow> int" where
  "compareItems a b =
     (let priorityDiff = priorityOrder (priority a) - priorityOrder (priority b)
      in if priorityDiff \<noteq> 0 then priorityDiff
         else healthScore a - healthScore b)"

text \<open>
  \<^verbatim>\<open>Array.prototype.sort\<close> is a built-in: ECMAScript specifies it as a stable sort, whose
  result is determined by the comparator whenever the comparator is a consistent
  ordering. It is modelled by a stable insertion sort over the comparator: an element is
  placed in front of the first element it does not compare greater than.
\<close>

fun insertBy :: "('a \<Rightarrow> 'a \<Rightarrow> int) \<Rightarrow> 'a \<Rightarrow> 'a list \<Rightarrow> 'a list" where
  "insertBy cmp x [] = [x]"
| "insertBy cmp x (y # ys) =
     (if cmp x y \<le> 0 then x # y # ys else y # insertBy cmp x ys)"

fun arraySort :: "('a \<Rightarrow> 'a \<Rightarrow> int) \<Rightarrow> 'a list \<Rightarrow> 'a list" where
  "arraySort cmp [] = []"
| "arraySort cmp (x # xs) = insertBy cmp x (arraySort cmp xs)"

definition sortQueue :: "queue_item list \<Rightarrow> queue_item list" where
  "sortQueue q = arraySort compareItems q"


section \<open>Configuration, collaborators and engine state\<close>

record config =
  qualityThreshold :: int
  retryAttempts :: nat
  autoPublish :: bool
  minHealthScore :: int
  maxPerDay :: nat
  processingIntervalMinutes :: int
  scanIntervalHours :: int
  activeHoursStart :: int
  activeHoursEnd :: int
  enableWeekends :: bool
  defaultStatus :: string

text \<open>
  The part of \<^verbatim>\<open>getAppConfig()\<close> that the engine's control flow reads. The source calls
  \<^verbatim>\<open>getAppConfig\<close> afresh in each phase; the model takes one snapshot per run.
\<close>

record app_config =
  wpUrl :: "string option"
  wpUsername :: "string option"
  wpAppPassword :: "string option"
  neuronWriterApiKey :: "string option"
  neuronWriterProjectId :: "string option"

text \<open>\<^verbatim>\<open>GodModeEngineOptions\<close>; an entry of \<^verbatim>\<open>priorityUrls\<close> is a pair of url and priority.\<close>

record options =
  config :: config
  sitemapUrls :: "string list"
  priorityUrls :: "(string \<times> priority) list"
  excludedUrls :: "string list"
  excludedCategories :: "string list"
  priorityOnlyMode :: bool
  appConfig :: app_config

text \<open>A value caught by a \<^verbatim>\<open>catch\<close> clause: an \<^verbatim>\<open>Error\<close> with its message, or anything else.\<close>

datatype thrown = Error_msg string | Other_thrown

text \<open>What \<^verbatim>\<open>orchestrator.generateContent\<close> returns, as far as the engine reads it.\<close>

record content =
  title :: string
  body :: string
  seoTitle :: string
  metaDescription :: string
  qualityOverall :: "int option"
  metricsWordCount :: "nat option"

datatype generate_outcome = GenerateThrows thrown | GenerateReturns content

record publish_request =
  req_wpUrl :: string
  req_wpUsername :: string
  req_wpPassword :: string
  req_title :: string
  req_content :: string
  req_status :: string
  req_seoTitle :: string
  req_metaDescription :: string
  req_sourceUrl :: string

text \<open>
  The answer of \<^verbatim>\<open>fetch('/api/wordpress-publish')\<close> followed by \<^verbatim>\<open>response.json()\<close>:
  either of them throws, or there is a response with \<^verbatim>\<open>ok\<close>, \<^verbatim>\<open>status\<close> and the
  \<^verbatim>\<open>link\<close> of the parsed body.
\<close>

datatype publish_outcome = FetchThrows thrown | Response bool nat "string option"

text \<open>
  A call of one of the public control methods by the host while the loop is suspended.
  \<^verbatim>\<open>start()\<close> is not among them: called after \<^verbatim>\<open>stop()\<close> while the loop of the
  previous run is still suspended, it begins a second loop next to the first, and both
  work on the same fields. The functions below follow one loop; a restart is composed
  from \<open>stop\<close> and \<open>start\<close> at the state in which the first loop is suspended, where a
  property depends on it.
\<close>

datatype control = Stop | Pause | Resume

text \<open>
  The external collaborators are oracles. Each is indexed by the number of collaborator
  calls made so far, so that successive calls may answer differently.
  \<^verbatim>\<open>urlPathname\<close> stands for \<^verbatim>\<open>new URL(url).pathname\<close> (\<open>None\<close> when the constructor
  throws) and \<^verbatim>\<open>toLowerCase\<close> for the string method; \<^verbatim>\<open>getHours\<close> and \<^verbatim>\<open>getDay\<close> read
  the local hour and weekday of a timestamp; \<^verbatim>\<open>latency\<close> is the time a call takes.
  While the engine awaits a sleep or a collaborator, the host may call \<^verbatim>\<open>stop()\<close>,
  \<^verbatim>\<open>pause()\<close> or \<^verbatim>\<open>resume()\<close>: \<open>arrivals n\<close> lists the calls that arrive during the
  engine's await number \<open>n\<close>, and \<open>wakeAfter n\<close> is the time that a sleep has lasted when
  a stop cuts it short.
\<close>

record world =
  analyzePage :: "nat \<Rightarrow> string \<Rightarrow> thrown + int"
  generateContent :: "nat \<Rightarrow> string \<Rightarrow> generate_outcome"
  publish :: "nat \<Rightarrow> publish_request \<Rightarrow> publish_outcome"
  random :: "nat \<Rightarrow> rat"
  latency :: "nat \<Rightarrow> int"
  urlPathname :: "string \<Rightarrow> string option"
  toLowerCase :: "string \<Rightarrow> string"
  getHours :: "int \<Rightarrow> int"
  getDay :: "int \<Rightarrow> int"
  arrivals :: "nat \<Rightarrow> control list"
  wakeAfter :: "nat \<Rightarrow> int"

datatype activity_type = info | success | warning | error_log

datatype status = idle | running | paused | status_error

datatype phase = scanning | scoring | generating | publishing

datatype action = generated | published | skipped | error

record generated_content =
  gc_title :: string
  gc_content :: string
  gc_seoTitle :: string
  gc_metaDescription :: string
  gc_slug :: string

text \<open>The argument of \<^verbatim>\<open>addToHistory\<close> (a history item without id and timestamp).\<close>

record history_item =
  h_url :: string
  h_action :: action
  h_qualityScore :: "int option"
  h_wordCount :: "nat option"
  h_processingTimeMs :: "int option"
  h_wordPressUrl :: "string option"
  h_error :: "string option"
  h_generatedContent :: "generated_content option"

record stats =
  totalProcessed :: nat
  successCount :: nat
  errorCount :: nat
  avgQualityScore :: int
  lastScanAt :: "int option"
  nextScanAt :: "int option"
  totalWordsGenerated :: nat
  sessionStartedAt :: int
  stats_cycleCount :: nat

text \<open>
  One field of the \<^verbatim>\<open>Partial<GodModeState>\<close> handed to \<^verbatim>\<open>onStateUpdate\<close>.
  \<open>StatsDelta\<close> is the object built by \<^verbatim>\<open>updateStats\<close> (success flag, quality score,
  word count), \<open>History\<close> the one-element \<^verbatim>\<open>history\<close> array of \<^verbatim>\<open>addToHistory\<close>.
\<close>

datatype field_update =
    Status status
  | CurrentPhase "phase option"
  | CurrentUrl "string option"
  | Queue "queue_item list"
  | Stats stats
  | StatsDelta bool int nat
  | History history_item
  | LastError string

text \<open>
  Everything the engine does to the outside is recorded, in order, in a trace: calls of
  \<^verbatim>\<open>onActivity\<close> (with the constant ASCII text of the message; interpolated values,
  pictographs and the details argument are left out), calls of
  \<^verbatim>\<open>onStateUpdate\<close>, sleeps and collaborator calls.
\<close>

datatype event =
    Log activity_type string
  | StateUpdate "field_update list"
  | Sleep int
  | AnalyzeCall string
  | GenerateCall string
  | PublishCall publish_request

text \<open>
  The private fields of the class, followed by the bookkeeping of the environment:
  the clock read by \<^verbatim>\<open>Date.now()\<close>, the number of collaborator calls, the number of
  awaits, the counter behind \<^verbatim>\<open>crypto.randomUUID()\<close> and the trace. \<open>abortController\<close> is \<open>None\<close> for
  \<^verbatim>\<open>null\<close> and otherwise holds \<^verbatim>\<open>signal.aborted\<close>; \<open>orchestrator\<close> tells whether the
  orchestrator has been created.
\<close>

record engine =
  isRunning :: bool
  isPaused :: bool
  abortController :: "bool option"
  orchestrator :: bool
  queue :: "queue_item list"
  processedToday :: nat
  lastScanTime :: "int option"
  cycleCount :: nat
  consecutiveFailures :: nat
  circuitBrokenUntil :: "int option"
  qualityScoreHistory :: "int list"
  processingTimeHistory :: "int list"
  clock :: int
  calls :: nat
  awaits :: nat
  uuids :: nat
  trace :: "event list"

text \<open>The \<^verbatim>\<open>ENTERPRISE_CONSTANTS\<close> that the engine reads.\<close>

definition MIN_QUALITY_SCORE :: int where "MIN_QUALITY_SCORE = 90"
definition MAX_QUALITY_IMPROVEMENT_PASSES :: nat where "MAX_QUALITY_IMPROVEMENT_PASSES = 3"
definition EXPONENTIAL_BACKOFF_BASE_MS :: int where "EXPONENTIAL_BACKOFF_BASE_MS = 5000"
definition EXPONENTIAL_BACKOFF_MAX_MS :: int where "EXPONENTIAL_BACKOFF_MAX_MS = 300000"
definition CIRCUIT_BREAKER_THRESHOLD :: nat where "CIRCUIT_BREAKER_THRESHOLD = 5"
definition CIRCUIT_BREAKER_RESET_MS :: int where "CIRCUIT_BREAKER_RESET_MS = 600000"

section \<open>Helper methods\<close>

definition emit :: "event \<Rightarrow> engine \<Rightarrow> engine" where
  "emit e s = s\<lparr>trace := trace s @ [e]\<rparr>"

definition log :: "activity_type \<Rightarrow> string \<Rightarrow> engine \<Rightarrow> engine" where
  "log t m s = emit (Log t m) s"

definition updateState :: "field_update list \<Rightarrow> engine \<Rightarrow> engine" where
  "updateState us s = emit (StateUpdate us) s"

definition addToHistory :: "history_item \<Rightarrow> engine \<Rightarrow> engine" where
  "addToHistory h s = updateState [History h] (s\<lparr>uuids := uuids s + 1\<rparr>)"

definition updateStats :: "int \<Rightarrow> nat \<Rightarrow> bool \<Rightarrow> engine \<Rightarrow> engine" where
  "updateStats q wc ok s = emit (StateUpdate [StatsDelta ok q wc]) s"

text \<open>The public control methods.\<close>

definition stop :: "engine \<Rightarrow> engine" where
  "stop s =
     (let s1 = log info ''Stopping God Mode...'' s;
          s2 = s1\<lparr>isRunning := False, isPaused := False, abortController := None\<rparr>;
          s3 = updateState [Status idle, CurrentPhase None, CurrentUrl None] s2
      in log success ''God Mode stopped'' s3)"

definition pause :: "engine \<Rightarrow> engine" where
  "pause s =
     (if \<not> isRunning s then s
      else updateState [Status paused] (log info ''God Mode paused'' (s\<lparr>isPaused := True\<rparr>)))"

definition resume :: "engine \<Rightarrow> engine" where
  "resume s =
     (if \<not> isRunning s \<or> \<not> isPaused s then s
      else updateState [Status running] (log info ''God Mode resumed'' (s\<lparr>isPaused := False\<rparr>)))"

text \<open>
  An \<^verbatim>\<open>await\<close>: the control calls that arrive while the engine is suspended run before
  it continues.
\<close>

fun applyControl :: "control \<Rightarrow> engine \<Rightarrow> engine" where
  "applyControl Stop s = stop s"
| "applyControl Pause s = pause s"
| "applyControl Resume s = resume s"

definition await :: "world \<Rightarrow> engine \<Rightarrow> engine" where
  "await w s = fold applyControl (arrivals w (awaits s)) (s\<lparr>awaits := awaits s + 1\<rparr>)"

text \<open>
  \<^verbatim>\<open>sleep(ms)\<close> resolves after \<open>ms\<close> milliseconds, or as soon as the abort controller
  that exists when the sleep begins is aborted, which is what \<^verbatim>\<open>stop()\<close> does.
\<close>

definition sleep :: "world \<Rightarrow> int \<Rightarrow> engine \<Rightarrow> engine" where
  "sleep w ms s =
     (let cut = (abortController s \<noteq> None \<and> Stop \<in> set (arrivals w (awaits s)));
          elapsed = (if cut then wakeAfter w (awaits s) else ms)
      in await w (emit (Sleep ms) (s\<lparr>clock := clock s + elapsed\<rparr>)))"

text \<open>
  A collaborator call: it is recorded, takes its time, advances the call counter, and is
  awaited.
\<close>

definition called :: "world \<Rightarrow> event \<Rightarrow> engine \<Rightarrow> engine" where
  "called w e s =
     await w (emit e (s\<lparr>clock := clock s + latency w (calls s), calls := calls s + 1\<rparr>))"

definition emptyHistoryItem :: "string \<Rightarrow> action \<Rightarrow> history_item" where
  "emptyHistoryItem u a =
     \<lparr>h_url = u, h_action = a, h_qualityScore = None, h_wordCount = None,
      h_processingTimeMs = None, h_wordPressUrl = None, h_error = None,
      h_generatedContent = None\<rparr>"

text \<open>Decimal rendering of a number inside a template string.\<close>

fun digitsOf :: "nat \<Rightarrow> string" where
  "digitsOf n =
     (if n < 10 then [char_of (48 + n)]
      else digitsOf (n div 10) @ [char_of (48 + n mod 10)])"

definition showInt :: "int \<Rightarrow> string" where
  "showInt i = (if i < 0 then CHR ''-'' # digitsOf (nat (- i)) else digitsOf (nat i))"

text \<open>
  \<^verbatim>\<open>calculateNextScan\<close> adds whole hours to the local time with \<^verbatim>\<open>setHours\<close>; the model
  adds 3600000 ms per hour to the clock.
\<close>

definition calculateNextScan :: "options \<Rightarrow> engine \<Rightarrow> int" where
  "calculateNextScan opts s = clock s + scanIntervalHours (config opts) * 3600000"

definition getDefaultStats :: "options \<Rightarrow> engine \<Rightarrow> stats" where
  "getDefaultStats opts s =
     \<lparr>totalProcessed = 0, successCount = 0, errorCount = 0, avgQualityScore = 0,
      lastScanAt = lastScanTime s, nextScanAt = Some (calculateNextScan opts s),
      totalWordsGenerated = 0, sessionStartedAt = clock s,
      stats_cycleCount = cycleCount s\<rparr>"

definition shouldScan :: "options \<Rightarrow> engine \<Rightarrow> bool" where
  "shouldScan opts s =
     (case lastScanTime s of
        None \<Rightarrow> True
      | Some t \<Rightarrow>
          (let hoursSinceLastScan = (rat_of_int (clock s - t)) / (1000 * 60 * 60)
           in hoursSinceLastScan \<ge> rat_of_int (scanIntervalHours (config opts))))"

definition isWithinActiveHours :: "world \<Rightarrow> options \<Rightarrow> engine \<Rightarrow> bool" where
  "isWithinActiveHours w opts s =
     (let hour = getHours w (clock s); day = getDay w (clock s)
      in if \<not> enableWeekends (config opts) \<and> (day = 0 \<or> day = 6) then False
         else hour \<ge> activeHoursStart (config opts) \<and> hour < activeHoursEnd (config opts))"


declare digitsOf.simps [simp del]

subsection \<open>Strings and URLs\<close>

text \<open>\<^verbatim>\<open>String.prototype.split\<close> with a one-character separator.\<close>

fun splitOn :: "char \<Rightarrow> string \<Rightarrow> string list" where
  "splitOn c [] = [[]]"
| "splitOn c (x # xs) =
     (if x = c then [] # splitOn c xs
      else (case splitOn c xs of [] \<Rightarrow> [[x]] | p # ps \<Rightarrow> (x # p) # ps))"

text \<open>\<^verbatim>\<open>String.prototype.includes\<close>.\<close>

fun stringIncludes :: "string \<Rightarrow> string \<Rightarrow> bool" where
  "stringIncludes [] sub = (sub = [])"
| "stringIncludes (x # xs) sub = (take (length sub) (x # xs) = sub \<or> stringIncludes xs sub)"

definition isExcluded :: "world \<Rightarrow> options \<Rightarrow> string \<Rightarrow> bool" where
  "isExcluded w opts u =
     (let pathname = (case urlPathname w u of
                        Some p \<Rightarrow> toLowerCase w p
                      | None \<Rightarrow> toLowerCase w u)
      in if list_ex (\<lambda>excl. case urlPathname w excl of
                               Some ep \<Rightarrow> toLowerCase w ep = pathname \<or> u = excl
                             | None \<Rightarrow> stringIncludes u excl) (excludedUrls opts)
         then True
         else if list_ex (\<lambda>cat. let catLower = toLowerCase w cat
                                 in list_ex (\<lambda>segment. segment = catLower)
                                      (splitOn CHR ''/'' pathname))
                   (excludedCategories opts)
         then True
         else False)"

definition getSlug :: "world \<Rightarrow> string \<Rightarrow> string" where
  "getSlug w u =
     (case urlPathname w u of
        None \<Rightarrow> u
      | Some p \<Rightarrow>
          (case filter (\<lambda>seg. seg \<noteq> []) (splitOn CHR ''/'' p) of
             [] \<Rightarrow> u
           | seg # segs \<Rightarrow> last (seg # segs)))"

text \<open>The character class \<^verbatim>\<open>\w\<close> and \<^verbatim>\<open>toUpperCase\<close> on a character of that class.\<close>

definition isWordChar :: "char \<Rightarrow> bool" where
  "isWordChar c =
     (let n = (of_char c :: nat)
      in (48 \<le> n \<and> n \<le> 57) \<or> (65 \<le> n \<and> n \<le> 90) \<or> n = 95 \<or> (97 \<le> n \<and> n \<le> 122))"

definition upperChar :: "char \<Rightarrow> char" where
  "upperChar c =
     (let n = (of_char c :: nat) in if 97 \<le> n \<and> n \<le> 122 then char_of (n - 32) else c)"

text \<open>
  \<^verbatim>\<open>replace(/\b\w/g, l => l.toUpperCase())\<close>: a word character is upper-cased when no word
  character precedes it. The flag tells whether the previous character was one.
\<close>

fun capitalizeWords :: "bool \<Rightarrow> string \<Rightarrow> string" where
  "capitalizeWords prev [] = []"
| "capitalizeWords prev (c # cs) =
     (if isWordChar c \<and> \<not> prev then upperChar c else c) # capitalizeWords (isWordChar c) cs"

definition extractKeyword :: "world \<Rightarrow> string \<Rightarrow> string" where
  "extractKeyword w u =
     (case urlPathname w u of
        None \<Rightarrow> u
      | Some pathname \<Rightarrow>
          (let slug = (case filter (\<lambda>seg. seg \<noteq> []) (splitOn CHR ''/'' pathname) of
                         [] \<Rightarrow> []
                       | seg # segs \<Rightarrow> last (seg # segs))
           in capitalizeWords False (map (\<lambda>c. if c = CHR ''-'' then CHR '' '' else c) slug)))"

definition calculatePriority :: "options \<Rightarrow> int \<Rightarrow> string \<Rightarrow> priority" where
  "calculatePriority opts score u =
     (case find (\<lambda>p. fst p = u) (priorityUrls opts) of
        Some priorityUrl \<Rightarrow> snd priorityUrl
      | None \<Rightarrow>
          if score < 30 then critical
          else if score < 50 then high
          else if score < 70 then medium
          else low)"

section \<open>Circuit breaker and backoff\<close>

text \<open>\<^verbatim>\<open>isCircuitBroken\<close> returns its verdict together with the state it leaves.\<close>

definition isCircuitBroken :: "engine \<Rightarrow> bool \<times> engine" where
  "isCircuitBroken s =
     (case circuitBrokenUntil s of
        None \<Rightarrow> (False, s)
      | Some until \<Rightarrow>
          if clock s \<ge> until
          then (False, log info ''Circuit breaker reset''
                         (s\<lparr>circuitBrokenUntil := None, consecutiveFailures := 0\<rparr>))
          else (True, s))"

text \<open>
  The numbers of the source are IEEE 754 doubles, and each arithmetic operation and each
  decimal literal is rounded to the nearest double, a tie going to the even significand.
  \<open>roundDouble x\<close> is that double for a rational \<open>x\<close>: with \<open>2 ^ k \<le> \<bar>x\<bar> < 2 ^ (k + 1)\<close>
  (\<open>k\<close> is \<open>binade \<bar>x\<bar>\<close>), the quotient of \<open>\<bar>x\<bar>\<close> by \<open>2 ^ (k - 52)\<close> is rounded to an integer
  significand of 53 bits. Overflow and subnormal numbers are left out: the values of
  \<^verbatim>\<open>calculateBackoffDelay\<close> stay far away from both.
\<close>

definition pow2 :: "int \<Rightarrow> rat" where
  "pow2 k = (if 0 \<le> k then 2 ^ nat k else 1 / 2 ^ nat (- k))"

definition binade :: "rat \<Rightarrow> int" where
  "binade a =
     (if 1 \<le> a then int (floorlog 2 (nat \<lfloor>a\<rfloor>)) - 1
      else - int (floorlog 2 (nat (\<lceil>1 / a\<rceil> - 1))))"

definition roundHalfEven :: "rat \<Rightarrow> int" where
  "roundHalfEven x =
     (let n = \<lfloor>x\<rfloor>; r = x - rat_of_int n
      in if r < 1 / 2 then n
         else if 1 / 2 < r then n + 1
         else if even n then n else n + 1)"

definition roundDouble :: "rat \<Rightarrow> rat" where
  "roundDouble x =
     (if x = 0 then 0
      else (let e = binade \<bar>x\<bar> - 52;
                m = roundHalfEven (\<bar>x\<bar> / pow2 e)
            in sgn x * rat_of_int m * pow2 e))"

text \<open>
  \<^verbatim>\<open>calculateBackoffDelay\<close>; the first argument is the value of \<^verbatim>\<open>Math.random()\<close>, a
  double from 0 (inclusive) to 1 (exclusive). \<^verbatim>\<open>Math.pow(2, retryCount)\<close>, its product
  with 5000 and \<^verbatim>\<open>Math.min\<close> are exact (a product beyond the range of doubles is
  infinite in the source and so loses against 300000 as well); the literal \<^verbatim>\<open>0.2\<close>, the
  two products and the difference of the jitter, and the final sum are rounded.
\<close>

definition calculateBackoffDelay :: "rat \<Rightarrow> nat \<Rightarrow> int" where
  "calculateBackoffDelay rnd rc =
     (let delay = min (rat_of_int EXPONENTIAL_BACKOFF_BASE_MS * 2 ^ rc)
                      (rat_of_int EXPONENTIAL_BACKOFF_MAX_MS);
          jitter = roundDouble (roundDouble (delay * roundDouble (2 / 10))
                                * roundDouble (rnd - 5 / 10))
      in \<lfloor>roundDouble (delay + jitter)\<rfloor>)"

text \<open>\<^verbatim>\<open>push\<close> followed by \<^verbatim>\<open>shift\<close> when more than 50 entries are held.\<close>

definition pushCapped :: "int \<Rightarrow> int list \<Rightarrow> int list" where
  "pushCapped x xs = (let ys = xs @ [x] in if length ys > 50 then tl ys else ys)"

definition recordSuccess :: "int \<Rightarrow> int \<Rightarrow> engine \<Rightarrow> engine" where
  "recordSuccess qualityScore processingTime s =
     s\<lparr>consecutiveFailures := 0,
       qualityScoreHistory := pushCapped qualityScore (qualityScoreHistory s),
       processingTimeHistory := pushCapped processingTime (processingTimeHistory s)\<rparr>"

definition recordFailure :: "engine \<Rightarrow> engine" where
  "recordFailure s =
     (let s1 = s\<lparr>consecutiveFailures := consecutiveFailures s + 1\<rparr>
      in if consecutiveFailures s1 \<ge> CIRCUIT_BREAKER_THRESHOLD
         then log warning ''Circuit breaker activated''
                (s1\<lparr>circuitBrokenUntil := Some (clock s1 + CIRCUIT_BREAKER_RESET_MS)\<rparr>)
         else s1)"


section \<open>Phase 4: publishing\<close>

text \<open>A string that may be \<^verbatim>\<open>undefined\<close>: its value, and its truthiness.\<close>

definition strOr :: "string option \<Rightarrow> string" where
  "strOr so = (case so of None \<Rightarrow> [] | Some x \<Rightarrow> x)"

definition falsy :: "string option \<Rightarrow> bool" where
  "falsy so = (strOr so = [])"

definition messageOf :: "thrown \<Rightarrow> string \<Rightarrow> string" where
  "messageOf e dflt = (case e of Error_msg m \<Rightarrow> m | Other_thrown \<Rightarrow> dflt)"

definition wordCountOf :: "content \<Rightarrow> nat" where
  "wordCountOf c = (case metricsWordCount c of None \<Rightarrow> 0 | Some n \<Rightarrow> n)"

text \<open>The \<^verbatim>\<open>try\<close> block of \<^verbatim>\<open>runPublishPhase\<close>, up to the parsed response.\<close>

definition publishAttempt ::
  "world \<Rightarrow> options \<Rightarrow> queue_item \<Rightarrow> content \<Rightarrow> engine \<Rightarrow> (thrown + string option) \<times> engine" where
  "publishAttempt w opts item c s =
     (let ac = appConfig opts
      in if falsy (wpUrl ac) \<or> falsy (wpUsername ac) \<or> falsy (wpAppPassword ac)
         then (Inl (Error_msg ''WordPress credentials not configured''), s)
         else
           (let req = \<lparr>req_wpUrl = strOr (wpUrl ac), req_wpUsername = strOr (wpUsername ac),
                       req_wpPassword = strOr (wpAppPassword ac), req_title = title c,
                       req_content = body c, req_status = defaultStatus (config opts),
                       req_seoTitle = seoTitle c, req_metaDescription = metaDescription c,
                       req_sourceUrl = url item\<rparr>;
                s1 = called w (PublishCall req) s
            in case publish w (calls s) req of
                 FetchThrows e \<Rightarrow> (Inl e, s1)
               | Response ok st link \<Rightarrow>
                   if \<not> ok
                   then (Inl (Error_msg (''WordPress API error: '' @ digitsOf st)), s1)
                   else (Inr link, s1)))"

definition runPublishPhase ::
  "world \<Rightarrow> options \<Rightarrow> queue_item \<Rightarrow> content \<Rightarrow> int \<Rightarrow> int \<Rightarrow> engine \<Rightarrow> engine" where
  "runPublishPhase w opts item c processingTime qualityScore s =
     (let s1 = updateState [CurrentPhase (Some publishing)] s;
          s2 = log info ''Publishing to WordPress...'' s1;
          wordCount = wordCountOf c
      in case publishAttempt w opts item c s2 of
           (Inr link, s3) \<Rightarrow>
             (let s4 = log success ''Published!'' s3
              in addToHistory
                   ((emptyHistoryItem (url item) published)
                      \<lparr>h_qualityScore := Some qualityScore, h_wordPressUrl := link,
                       h_processingTimeMs := Some processingTime,
                       h_wordCount := Some wordCount\<rparr>) s4)
         | (Inl e, s3) \<Rightarrow>
             (let message = messageOf e ''Publish failed'';
                  s4 = log error_log ''Publish failed'' s3
              in addToHistory
                   ((emptyHistoryItem (url item) error)
                      \<lparr>h_qualityScore := Some qualityScore,
                       h_error := Some (''Generated but publish failed: '' @ message),
                       h_processingTimeMs := Some processingTime\<rparr>) s4))"

section \<open>Phase 3: generation\<close>

text \<open>
  The multi-pass \<^verbatim>\<open>while (passCount < maxPasses)\<close> loop with its three variables
  \<^verbatim>\<open>content\<close>, \<^verbatim>\<open>qualityScore\<close> and \<^verbatim>\<open>passCount\<close>. An exception of the generator
  leaves the loop as \<open>Inl\<close>. Progress messages that the generator itself sends through
  \<^verbatim>\<open>onProgress\<close> are not recorded.
\<close>

function generationPasses ::
  "world \<Rightarrow> string \<Rightarrow> nat \<Rightarrow> content option \<Rightarrow> int \<Rightarrow> nat \<Rightarrow> engine
     \<Rightarrow> (thrown + (content option \<times> int \<times> nat)) \<times> engine" where
  "generationPasses w keyword maxPasses cont qualityScore passCount s =
     (if passCount < maxPasses then
        (let passCount1 = passCount + 1;
             s1 = called w (GenerateCall keyword) s
         in case generateContent w (calls s) keyword of
              GenerateThrows e \<Rightarrow> (Inl e, s1)
            | GenerateReturns c \<Rightarrow>
                (let q = (case qualityOverall c of None \<Rightarrow> 0 | Some v \<Rightarrow> v);
                     s2 = log info ''Pass complete'' s1
                 in if q \<ge> MIN_QUALITY_SCORE
                    then (Inr (Some c, q, passCount1),
                          log success ''Target quality achieved!'' s2)
                    else if passCount1 < maxPasses
                    then generationPasses w keyword maxPasses (Some c) q passCount1
                           (sleep w 2000
                              (log info ''Quality below target, initiating improvement pass'' s2))
                    else generationPasses w keyword maxPasses (Some c) q passCount1 s2))
      else (Inr (cont, qualityScore, passCount), s))"
  by pat_completeness auto
termination
  by (relation "measure (\<lambda>(w, keyword, maxPasses, cont, qualityScore, passCount, s).
                            maxPasses - passCount)") auto

declare generationPasses.simps [simp del]

text \<open>The rest of the \<^verbatim>\<open>try\<close> block, after the loop has ended without an exception.\<close>

definition afterPasses ::
  "world \<Rightarrow> options \<Rightarrow> queue_item \<Rightarrow> int \<Rightarrow> content option \<Rightarrow> int \<Rightarrow> nat \<Rightarrow> engine
     \<Rightarrow> (thrown + unit) \<times> engine" where
  "afterPasses w opts item startTime cont qualityScore passCount s =
     (let processingTime = clock s - startTime;
          wordCount = (case cont of None \<Rightarrow> 0 | Some c \<Rightarrow> wordCountOf c);
          s1 = recordSuccess qualityScore processingTime s;
          generatedContent =
            \<lparr>gc_title = (case cont of None \<Rightarrow> [] | Some c \<Rightarrow> title c),
             gc_content = (case cont of None \<Rightarrow> [] | Some c \<Rightarrow> body c),
             gc_seoTitle = (case cont of None \<Rightarrow> [] | Some c \<Rightarrow> seoTitle c),
             gc_metaDescription = (case cont of None \<Rightarrow> [] | Some c \<Rightarrow> metaDescription c),
             gc_slug = getSlug w (url item)\<rparr>
      in if qualityScore < qualityThreshold (config opts) then
           (let s2 = log warning ''Below quality threshold'' s1;
                s3 = addToHistory
                       ((emptyHistoryItem (url item) skipped)
                          \<lparr>h_qualityScore := Some qualityScore,
                           h_processingTimeMs := Some processingTime,
                           h_wordCount := Some wordCount,
                           h_error := Some (''Quality score '' @ showInt qualityScore
                              @ ''% below threshold '' @ showInt (qualityThreshold (config opts))
                              @ ''% after '' @ digitsOf passCount @ '' pass(es)''),
                           h_generatedContent := Some generatedContent\<rparr>) s2
            in (Inr (), log info ''Content saved for review'' s3))
         else
           (case (if autoPublish (config opts) then
                    (case cont of
                       None \<Rightarrow> (Inl (Error_msg ''Cannot read properties of null''), s1)
                     | Some c \<Rightarrow>
                         (Inr (), runPublishPhase w opts item c processingTime qualityScore s1))
                  else
                    (let s2 = log success ''ENTERPRISE Content Generated'' s1
                     in (Inr (), addToHistory
                                  ((emptyHistoryItem (url item) generated)
                                     \<lparr>h_qualityScore := Some qualityScore,
                                      h_processingTimeMs := Some processingTime,
                                      h_wordCount := Some wordCount,
                                      h_generatedContent := Some generatedContent\<rparr>) s2))) of
              (Inl e, s3) \<Rightarrow> (Inl e, s3)
            | (Inr u, s3) \<Rightarrow>
                (let s4 = s3\<lparr>processedToday := processedToday s3 + 1\<rparr>;
                     s5 = updateStats qualityScore wordCount True s4;
                     waitTime = processingIntervalMinutes (config opts) * 60 * 1000;
                     s6 = log info ''Next item in minutes'' s5
                 in (Inr (), sleep w waitTime s6))))"

text \<open>The \<^verbatim>\<open>try\<close> block of \<^verbatim>\<open>runGenerationPhase\<close>.\<close>

definition generationAttempt ::
  "world \<Rightarrow> options \<Rightarrow> queue_item \<Rightarrow> int \<Rightarrow> bool \<Rightarrow> engine \<Rightarrow> (thrown + unit) \<times> engine" where
  "generationAttempt w opts item startTime isPriorityItem s =
     (let keyword = extractKeyword w (url item)
      in if \<not> orchestrator s
         then (Inl (Error_msg ''Content orchestrator not initialized''), s)
         else
           (let maxPasses = (if isPriorityItem then MAX_QUALITY_IMPROVEMENT_PASSES else 1);
                s1 = log info ''Starting content generation'' s
            in case generationPasses w keyword maxPasses None 0 0 s1 of
                 (Inl e, s2) \<Rightarrow> (Inl e, s2)
               | (Inr (cont, qualityScore, passCount), s2) \<Rightarrow>
                   afterPasses w opts item startTime cont qualityScore passCount s2))"

text \<open>The \<^verbatim>\<open>catch\<close> block of \<^verbatim>\<open>runGenerationPhase\<close>.\<close>

definition generationFailed ::
  "world \<Rightarrow> options \<Rightarrow> queue_item \<Rightarrow> int \<Rightarrow> thrown \<Rightarrow> engine \<Rightarrow> engine" where
  "generationFailed w opts item startTime e s =
     (let message = messageOf e ''Generation failed'';
          s1 = log error_log ''Generation failed'' s;
          s2 = recordFailure s1;
          s3 = (if retryCount item < retryAttempts (config opts) then
                  (let item1 = item\<lparr>retryCount := retryCount item + 1,
                                    lastError := Some message\<rparr>;
                       backoffDelay = calculateBackoffDelay (random w (calls s2)) (retryCount item1);
                       s2a = s2\<lparr>calls := calls s2 + 1\<rparr>;
                       s2b = log info ''Retry scheduled'' s2a;
                       s2c = sleep w backoffDelay s2b;
                       s2d = s2c\<lparr>queue := queue s2c @ [item1]\<rparr>;
                       s2e = s2d\<lparr>queue := sortQueue (queue s2d)\<rparr>
                   in updateState [Queue (queue s2e)] s2e)
                else
                  (let s2a = log error_log ''Max retries exceeded'' s2
                   in addToHistory
                        ((emptyHistoryItem (url item) error)
                           \<lparr>h_error := Some (''Max retries ('' @ digitsOf (retryCount item)
                              @ '') exceeded. Last error: '' @ message),
                            h_processingTimeMs := Some (clock s2a - startTime)\<rparr>) s2a))
      in updateStats 0 0 False s3)"

definition runGenerationPhase :: "world \<Rightarrow> options \<Rightarrow> engine \<Rightarrow> engine" where
  "runGenerationPhase w opts s =
     (case isCircuitBroken s of
        (True, s1) \<Rightarrow> sleep w 60000 (log warning ''Circuit breaker active'' s1)
      | (False, s1) \<Rightarrow>
          (case queue s1 of
             [] \<Rightarrow> s1
           | item # rest \<Rightarrow>
               (let s2 = s1\<lparr>queue := rest\<rparr>;
                    s3 = updateState [CurrentPhase (Some generating), CurrentUrl (Some (url item)),
                                      Queue (queue s2)] s2;
                    startTime = clock s3;
                    isPriorityItem = (priorityOnlyMode opts \<or> source item = manual);
                    s4 = log info ''Generating content...'' s3
                in case generationAttempt w opts item startTime isPriorityItem s4 of
                     (Inr u, s5) \<Rightarrow> s5
                   | (Inl e, s5) \<Rightarrow> generationFailed w opts item startTime e s5)))"

section \<open>Phase 1: scanning\<close>

definition runScanPhase :: "options \<Rightarrow> engine \<Rightarrow> engine" where
  "runScanPhase opts s =
     (if priorityOnlyMode opts
      then log warning ''Priority Only Mode Active'' s
      else
        (let s1 = updateState [CurrentPhase (Some scanning)] s;
             s2 = log info ''Scanning sitemap...'' s1;
             s3 = s2\<lparr>lastScanTime := Some (clock s2)\<rparr>;
             s4 = updateState
                    [Stats ((getDefaultStats opts s3)
                              \<lparr>lastScanAt := lastScanTime s3,
                               nextScanAt := Some (calculateNextScan opts s3)\<rparr>)] s3
         in log success ''Sitemap scan complete'' s4))"

section \<open>Phase 2: scoring\<close>

definition signalAborted :: "engine \<Rightarrow> bool" where
  "signalAborted s = (case abortController s of None \<Rightarrow> False | Some a \<Rightarrow> a)"

text \<open>
  The body of the \<^verbatim>\<open>for\<close> loop over \<^verbatim>\<open>urlsToAnalyze\<close>, after the check for
  cancellation. An exception of the analyzer is caught inside the body, which then skips
  the throttling sleep.
\<close>

definition scoreUrl :: "world \<Rightarrow> options \<Rightarrow> string \<Rightarrow> engine \<Rightarrow> engine" where
  "scoreUrl w opts u s =
     (let s1 = updateState [CurrentUrl (Some u)] s;
          s2 = called w (AnalyzeCall u) s1
      in case analyzePage w (calls s1) u of
           Inl e \<Rightarrow> log warning ''Failed to score'' s2
         | Inr score \<Rightarrow>
             (let s3 = (if score < minHealthScore (config opts)
                           \<and> \<not> list_ex (\<lambda>q. url q = u) (queue s2)
                        then
                          (let pr = calculatePriority opts score u;
                               item = \<lparr>item_id = uuids s2, url = u, priority = pr,
                                       healthScore = score, addedAt = clock s2,
                                       source = (if list_ex (\<lambda>p. fst p = u) (priorityUrls opts)
                                                 then manual else scan),
                                       retryCount = 0, lastError = None\<rparr>
                           in log info ''Queued''
                                (s2\<lparr>queue := queue s2 @ [item], uuids := uuids s2 + 1\<rparr>))
                        else s2)
              in sleep w 500 s3))"

fun scoreUrls :: "world \<Rightarrow> options \<Rightarrow> string list \<Rightarrow> engine \<Rightarrow> engine" where
  "scoreUrls w opts [] s = s"
| "scoreUrls w opts (u # us) s =
     (if signalAborted s \<or> isPaused s then s
      else scoreUrls w opts us (scoreUrl w opts u s))"

definition runScoringPhase :: "world \<Rightarrow> options \<Rightarrow> engine \<Rightarrow> engine" where
  "runScoringPhase w opts s =
     (let s1 = updateState [CurrentPhase (Some scoring)] s;
          urlsToScore = (if priorityOnlyMode opts then map fst (priorityUrls opts)
                         else sitemapUrls opts);
          filteredUrls = filter (\<lambda>u. \<not> isExcluded w opts u) urlsToScore
      in if length filteredUrls = 0
         then log warning ''No URLs to score'' s1
         else
           (let s2 = log info ''Scoring page health...'' s1;
                urlsToAnalyze = take 20 filteredUrls;
                s3 = scoreUrls w opts urlsToAnalyze s2;
                s4 = s3\<lparr>queue := sortQueue (queue s3)\<rparr>;
                s5 = updateState [Queue (queue s4), CurrentUrl None] s4
            in log success ''Scoring complete'' s5))"

section \<open>Lifecycle and main loop\<close>

text \<open>The body and the \<^verbatim>\<open>for\<close> loop of \<^verbatim>\<open>initializePriorityQueue\<close>.\<close>

definition enqueuePriorityUrl :: "world \<Rightarrow> options \<Rightarrow> string \<times> priority \<Rightarrow> engine \<Rightarrow> engine" where
  "enqueuePriorityUrl w opts priorityUrl s =
     (if isExcluded w opts (fst priorityUrl) then log info ''Excluded'' s
      else if list_ex (\<lambda>q. url q = fst priorityUrl) (queue s) then s
      else s\<lparr>queue := queue s @
                 [\<lparr>item_id = uuids s, url = fst priorityUrl, priority = snd priorityUrl,
                   healthScore = 0, addedAt = clock s, source = manual,
                   retryCount = 0, lastError = None\<rparr>],
              uuids := uuids s + 1\<rparr>)"

fun enqueuePriorityUrls ::
  "world \<Rightarrow> options \<Rightarrow> (string \<times> priority) list \<Rightarrow> engine \<Rightarrow> engine" where
  "enqueuePriorityUrls w opts [] s = s"
| "enqueuePriorityUrls w opts (priorityUrl # rest) s =
     enqueuePriorityUrls w opts rest (enqueuePriorityUrl w opts priorityUrl s)"

definition logAll :: "activity_type \<Rightarrow> string list \<Rightarrow> engine \<Rightarrow> engine" where
  "logAll t ms s = fold (log t) ms s"

definition initializePriorityQueue :: "world \<Rightarrow> options \<Rightarrow> engine \<Rightarrow> engine" where
  "initializePriorityQueue w opts s =
     (let s1 = s\<lparr>queue := []\<rparr>;
          s2 = logAll info
                 [''==='', ''PRIORITY ONLY MODE - ENTERPRISE INITIALIZATION'', ''==='',
                  ''Pre-flight Checks'', ''Total Priority URLs'', ''NeuronWriter'',
                  ''Quality Threshold'', ''Multi-pass Quality'', ''Retry Attempts''] s1;
          s3 = enqueuePriorityUrls w opts (priorityUrls opts) s2;
          s4 = s3\<lparr>queue := sortQueue (queue s3)\<rparr>;
          s5 = updateState [Queue (queue s4)] s4;
          s6 = logAll info
                 [[], ''Queue Summary'', ''Critical'', ''High'', ''Medium'', ''Low'',
                  ''Excluded'', ''Estimated Time'', ''===''] s5
      in log success ''Priority Queue Ready'' s6)"

definition initializeOrchestrator :: "engine \<Rightarrow> engine" where
  "initializeOrchestrator s = s\<lparr>orchestrator := True\<rparr>"

text \<open>
  One run of the body of the \<^verbatim>\<open>while\<close> loop of \<^verbatim>\<open>mainLoop\<close>. No phase of the model lets
  an exception escape (each catches what its collaborator throws), so the \<^verbatim>\<open>catch\<close>
  clause of the loop has no counterpart here.
\<close>

definition mainLoopBody :: "world \<Rightarrow> options \<Rightarrow> engine \<Rightarrow> engine" where
  "mainLoopBody w opts s =
     (if isPaused s then sleep w 1000 s
      else if \<not> isWithinActiveHours w opts s
      then sleep w 60000 (log info ''Outside active hours'' s)
      else if processedToday s \<ge> maxPerDay (config opts)
      then sleep w 3600000 (log info ''Daily limit reached'' s)
      else
        (let s1 = s\<lparr>cycleCount := cycleCount s + 1\<rparr>;
             s2 = updateState
                    [Stats ((getDefaultStats opts s1)\<lparr>stats_cycleCount := cycleCount s1\<rparr>)] s1
         in if priorityOnlyMode opts then
              (if length (queue s2) > 0 then runGenerationPhase w opts s2
               else
                 (let s3 = log success ''Priority Queue Complete'' s2;
                      s4 = updateState [Status idle, CurrentPhase None] s3
                  in stop s4))
            else
              (let s3 = (if shouldScan opts s2 then runScanPhase opts s2 else s2);
                   s4 = (if length (queue s3) = 0 then runScoringPhase w opts s3 else s3)
               in if length (queue s4) > 0 then runGenerationPhase w opts s4
                  else sleep w (processingIntervalMinutes (config opts) * 60 * 1000)
                         (log info ''Queue empty'' s4))))"

text \<open>
  The loop may run for ever; \<open>mainLoop n\<close> is the state after at most \<open>n\<close> runs of its
  body, or the state in which its condition failed.
\<close>

fun mainLoop :: "nat \<Rightarrow> world \<Rightarrow> options \<Rightarrow> engine \<Rightarrow> engine" where
  "mainLoop 0 w opts s = s"
| "mainLoop (Suc n) w opts s =
     (if isRunning s \<and> \<not> signalAborted s
      then mainLoop n w opts (mainLoopBody w opts s)
      else s)"

text \<open>
  \<^verbatim>\<open>start()\<close>, with the number of loop iterations observed. It returns the state it
  leaves and, as \<open>Inl\<close>, the exception it throws, if any.
\<close>

definition start :: "nat \<Rightarrow> world \<Rightarrow> options \<Rightarrow> engine \<Rightarrow> (thrown + unit) \<times> engine" where
  "start n w opts s =
     (if isRunning s then (Inr (), log warning ''Engine already running'' s)
      else if priorityOnlyMode opts \<and> length (priorityUrls opts) = 0
      then (Inl (Error_msg ''Priority Only Mode requires at least one URL in the Priority Queue. Add URLs to your priority queue first.''), s)
      else
        (let s0 = (if priorityOnlyMode opts then log info ''PRIORITY ONLY MODE ENABLED'' s else s);
             s1 = s0\<lparr>isRunning := True, isPaused := False, abortController := Some False,
                     processedToday := 0, cycleCount := 0\<rparr>;
             s2 = log success ''GOD MODE 2.0 ACTIVATED'' s1;
             s3 = updateState
                    [Status running,
                     Stats \<lparr>totalProcessed = 0, successCount = 0, errorCount = 0,
                            avgQualityScore = 0, lastScanAt = None,
                            nextScanAt = (if priorityOnlyMode opts then None
                                          else Some (calculateNextScan opts s2)),
                            totalWordsGenerated = 0, sessionStartedAt = clock s2,
                            stats_cycleCount = 0\<rparr>] s2;
             s4 = initializeOrchestrator s3;
             s5 = (if priorityOnlyMode opts then initializePriorityQueue w opts s4 else s4)
         in (Inr (), mainLoop n w opts s5)))"

section \<open>Observations\<close>

text \<open>
  The order that \<^verbatim>\<open>sortQueue\<close>'s comparator induces: \<open>a\<close> may stand in front of \<open>b\<close>
  when the comparator does not return a positive number.
\<close>

definition mayPrecede :: "queue_item \<Rightarrow> queue_item \<Rightarrow> bool" where
  "mayPrecede a b = (compareItems a b \<le> 0)"

text \<open>What a run has done, read off its trace.\<close>

fun isGenerateCall :: "event \<Rightarrow> bool" where
  "isGenerateCall (GenerateCall k) = True"
| "isGenerateCall e = False"

definition generatorCalls :: "engine \<Rightarrow> nat" where
  "generatorCalls s = length (filter isGenerateCall (trace s))"

definition pauses :: "engine \<Rightarrow> nat" where
  "pauses s = length (filter (\<lambda>e. e = Sleep 2000) (trace s))"

fun analyzedUrl :: "event \<Rightarrow> string list" where
  "analyzedUrl (AnalyzeCall u) = [u]"
| "analyzedUrl e = []"

definition analyzedUrls :: "engine \<Rightarrow> string list" where
  "analyzedUrls s = concat (map analyzedUrl (trace s))"

fun historyField :: "field_update \<Rightarrow> history_item list" where
  "historyField (History h) = [h]"
| "historyField f = []"

fun historyOf :: "event \<Rightarrow> history_item list" where
  "historyOf (StateUpdate us) = concat (map historyField us)"
| "historyOf e = []"

definition historyEntries :: "engine \<Rightarrow> history_item list" where
  "historyEntries s = concat (map historyOf (trace s))"

text \<open>
  The events that only \<^verbatim>\<open>runScanPhase\<close> produces: its three log messages and the state
  update that announces the scanning phase.
\<close>

fun scanEvent :: "event \<Rightarrow> bool" where
  "scanEvent (Log t m) =
     (m = ''Priority Only Mode Active'' \<or> m = ''Scanning sitemap...''
      \<or> m = ''Sitemap scan complete'')"
| "scanEvent (StateUpdate us) = (CurrentPhase (Some scanning) \<in> set us)"
| "scanEvent e = False"

definition scanEvents :: "engine \<Rightarrow> event list" where
  "scanEvents s = filter scanEvent (trace s)"

text \<open>
  The fields that only the engine's own phases change: the bookkeeping of the environment
  (clock, counters, trace) and the three fields that the control methods write are
  blanked out.
\<close>

definition core :: "engine \<Rightarrow> engine" where
  "core s =
     s\<lparr>isRunning := False, isPaused := False, abortController := None,
       clock := 0, calls := 0, awaits := 0, uuids := 0, trace := []\<rparr>"

text \<open>
  The quality score that the engine reads off the generator's answer to collaborator call
  number \<open>n\<close> (\<^verbatim>\<open>content.qualityScore?.overall || 0\<close>), or \<open>None\<close> when that call throws;
  and whether the \<open>k\<close> calls from number \<open>base\<close> on all return a score below the
  engine's target.
\<close>

definition passQuality :: "world \<Rightarrow> string \<Rightarrow> nat \<Rightarrow> int option" where
  "passQuality w keyword n =
     (case generateContent w n keyword of
        GenerateThrows e \<Rightarrow> None
      | GenerateReturns c \<Rightarrow> Some (case qualityOverall c of None \<Rightarrow> 0 | Some v \<Rightarrow> v))"

fun belowTarget :: "world \<Rightarrow> string \<Rightarrow> nat \<Rightarrow> nat \<Rightarrow> bool" where
  "belowTarget w keyword base 0 = True"
| "belowTarget w keyword base (Suc k) =
     ((case passQuality w keyword base of None \<Rightarrow> False | Some v \<Rightarrow> v < MIN_QUALITY_SCORE)
      \<and> belowTarget w keyword (Suc base) k)"

text \<open>
  Whether the multi-pass loop, allowed \<open>m\<close> passes from collaborator call number \<open>base\<close>
  on, ends with an exception: some pass throws, and every pass before it returned a score
  below the target.
\<close>

fun passesThrow :: "world \<Rightarrow> string \<Rightarrow> nat \<Rightarrow> nat \<Rightarrow> bool" where
  "passesThrow w keyword base 0 = False"
| "passesThrow w keyword base (Suc m) =
     (case passQuality w keyword base of
        None \<Rightarrow> True
      | Some v \<Rightarrow> v < MIN_QUALITY_SCORE \<and> passesThrow w keyword (Suc base) m)"

text \<open>
  Whether the generation attempt for an item, begun in state \<open>s\<close>, fails: the orchestrator
  is missing, or the loop ends with an exception.
\<close>

definition generationFails :: "world \<Rightarrow> options \<Rightarrow> queue_item \<Rightarrow> engine \<Rightarrow> bool" where
  "generationFails w opts item s =
     (\<not> orchestrator s
      \<or> passesThrow w (extractKeyword w (url item)) (calls s)
           (if priorityOnlyMode opts \<or> source item = manual
            then MAX_QUALITY_IMPROVEMENT_PASSES else 1))"

section \<open>Example data\<close>

text \<open>The engine as the class's field initialisers leave it, at a given time.\<close>

definition newEngine :: "int \<Rightarrow> engine" where
  "newEngine t =
     \<lparr>isRunning = False, isPaused = False, abortController = None, orchestrator = False,
      queue = [], processedToday = 0, lastScanTime = None, cycleCount = 0,
      consecutiveFailures = 0, circuitBrokenUntil = None, qualityScoreHistory = [],
      processingTimeHistory = [], clock = t, calls = 0, awaits = 0, uuids = 0, trace = []\<rparr>"

text \<open>Example data for the concrete runs below.\<close>

definition exItem :: "string \<Rightarrow> priority \<Rightarrow> int \<Rightarrow> nat \<Rightarrow> queue_item" where
  "exItem u p h rc =
     \<lparr>item_id = 0, url = u, priority = p, healthScore = h, addedAt = 0, source = manual,
      retryCount = rc, lastError = None\<rparr>"

definition exContent :: "int \<Rightarrow> content" where
  "exContent q =
     \<lparr>title = ''Title'', body = ''Body'', seoTitle = ''Seo'', metaDescription = ''Meta'',
      qualityOverall = Some q, metricsWordCount = Some 1200\<rparr>"

text \<open>
  A world whose generator answers by the given function of the call number, whose
  publisher answers as given, whose analyzer reports the given score everywhere, and
  whose host calls no control method.
\<close>

definition exWorld :: "(nat \<Rightarrow> generate_outcome) \<Rightarrow> publish_outcome \<Rightarrow> int \<Rightarrow> world" where
  "exWorld gen pub score =
     \<lparr>analyzePage = (\<lambda>n u. Inr score), generateContent = (\<lambda>n k. gen n),
      publish = (\<lambda>n r. pub), random = (\<lambda>n. 1 / 2), latency = (\<lambda>n. 1000),
      urlPathname = (\<lambda>u. None), toLowerCase = (\<lambda>x. x),
      getHours = (\<lambda>t. 12), getDay = (\<lambda>t. 3),
      arrivals = (\<lambda>n. []), wakeAfter = (\<lambda>n. 0)\<rparr>"

definition exConfig :: "bool \<Rightarrow> config" where
  "exConfig auto =
     \<lparr>qualityThreshold = 70, retryAttempts = 2, autoPublish = auto, minHealthScore = 50,
      maxPerDay = 10, processingIntervalMinutes = 5, scanIntervalHours = 24,
      activeHoursStart = 0, activeHoursEnd = 24, enableWeekends = True,
      defaultStatus = ''draft''\<rparr>"

definition exOptions :: "bool \<Rightarrow> bool \<Rightarrow> (string \<times> priority) list \<Rightarrow> options" where
  "exOptions priorityOnly auto purls =
     \<lparr>config = exConfig auto, sitemapUrls = [''https://site/a'', ''https://site/b''],
      priorityUrls = purls, excludedUrls = [], excludedCategories = [],
      priorityOnlyMode = priorityOnly,
      appConfig = \<lparr>wpUrl = Some ''https://wp'', wpUsername = Some ''user'',
                    wpAppPassword = Some ''secret'', neuronWriterApiKey = None,
                    neuronWriterProjectId = None\<rparr>\<rparr>"

text \<open>
  A started engine holding the given queue, and a generator that answers its first calls
  with contents of the listed quality scores and throws from then on.
\<close>

definition exRunning :: "queue_item list \<Rightarrow> engine" where
  "exRunning q =
     (newEngine 0)\<lparr>isRunning := True, abortController := Some False, orchestrator := True,
                   queue := q\<rparr>"

definition exScores :: "int list \<Rightarrow> nat \<Rightarrow> generate_outcome" where
  "exScores qs n =
     (if n < length qs then GenerateReturns (exContent (qs ! n))
      else GenerateThrows (Error_msg ''generator unavailable''))"

text \<open>
  Data for a restart while a generator call is pending. The engine runs in priority-only
  mode on one url, with active hours that end at 13; the url parses and the generator
  throws. The engine is started half a second before 13 o'clock, so that the hour is 12
  when the first generator call begins and 13 when it has taken its 1000 ms.
\<close>

definition exRestartWorld :: world where
  "exRestartWorld =
     (exWorld (exScores []) (Response True 200 None) 5)
       \<lparr>urlPathname := (\<lambda>u. if u = ''https://site/a'' then Some ''/a'' else None),
        getHours := (\<lambda>t. if t < 500 then 12 else 13)\<rparr>"

definition exRestartOptions :: options where
  "exRestartOptions =
     (exOptions True False [(''https://site/a'', high)])
       \<lparr>config := (exConfig False)\<lparr>activeHoursEnd := 13\<rparr>\<rparr>"

text \<open>
  The state in which the first iteration of the loop, begun by \<^verbatim>\<open>start()\<close> on a new
  engine, catches the exception of its generator call: the cycle has been counted, the
  item has been taken from the queue and announced, and the call has been made.
\<close>

definition exCaught :: engine where
  "exCaught =
     (let s0 = snd (start 0 exRestartWorld exRestartOptions (newEngine 0));
          s1 = s0\<lparr>cycleCount := cycleCount s0 + 1\<rparr>;
          s2 = updateState
                 [Stats ((getDefaultStats exRestartOptions s1)
                           \<lparr>stats_cycleCount := cycleCount s1\<rparr>)] s1;
          s3 = updateState [CurrentPhase (Some generating), CurrentUrl (Some ''https://site/a''),
                            Queue []] (s2\<lparr>queue := []\<rparr>);
          s4 = log info ''Generating content...'' s3;
          s5 = log info ''Starting content generation'' s4
      in called exRestartWorld
           (GenerateCall (extractKeyword exRestartWorld ''https://site/a'')) s5)"

section \<open>Basic facts\<close>

lemmas effect_defs =
  emit_def log_def updateState_def addToHistory_def updateStats_def

subsection \<open>Sorting\<close>

lemma mayPrecede_iff:
  "mayPrecede a b \<longleftrightarrow>
     priorityOrder (priority a) < priorityOrder (priority b)
     \<or> (priority a = priority b \<and> healthScore a \<le> healthScore b)"
  by (cases "priority a"; cases "priority b") (simp_all add: mayPrecede_def compareItems_def)

lemma mayPrecede_total: "\<not> mayPrecede a b \<Longrightarrow> mayPrecede b a"
  by (auto simp: mayPrecede_iff) (cases "priority a"; cases "priority b"; simp)+

lemma mayPrecede_trans: "mayPrecede a b \<Longrightarrow> mayPrecede b c \<Longrightarrow> mayPrecede a c"
  by (auto simp: mayPrecede_iff)

lemma set_insertBy: "set (insertBy cmp x xs) = insert x (set xs)"
  by (induction xs) auto

lemma length_insertBy: "length (insertBy cmp x xs) = Suc (length xs)"
  by (induction xs) auto

lemma set_arraySort: "set (arraySort cmp xs) = set xs"
  by (induction xs) (auto simp: set_insertBy)

lemma length_arraySort: "length (arraySort cmp xs) = length xs"
  by (induction xs) (auto simp: length_insertBy)

lemma set_sortQueue: "set (sortQueue q) = set q"
  by (simp add: sortQueue_def set_arraySort)

lemma length_sortQueue: "length (sortQueue q) = length q"
  by (simp add: sortQueue_def length_arraySort)

lemma sorted_insertBy:
  "sorted_wrt mayPrecede xs \<Longrightarrow> sorted_wrt mayPrecede (insertBy compareItems x xs)"
proof (induction xs)
  case Nil
  then show ?case by simp
next
  case (Cons y ys)
  show ?case
  proof (cases "compareItems x y \<le> 0")
    case True
    then have xy: "mayPrecede x y" by (simp add: mayPrecede_def)
    have "\<forall>z\<in>set ys. mayPrecede x z"
      using Cons.prems xy by (auto intro: mayPrecede_trans)
    with True xy Cons.prems show ?thesis by simp
  next
    case False
    then have "mayPrecede y x" using mayPrecede_total [of x y] by (simp add: mayPrecede_def)
    with False Cons show ?thesis by (auto simp: set_insertBy)
  qed
qed

lemma sorted_sortQueue: "sorted_wrt mayPrecede (sortQueue q)"
  unfolding sortQueue_def by (induction q) (simp_all add: sorted_insertBy)

lemma distinct_urls_insertBy:
  "distinct (map url (insertBy cmp x xs)) \<longleftrightarrow> url x \<notin> url ` set xs \<and> distinct (map url xs)"
  by (induction xs) (auto simp: set_insertBy)

lemma distinct_urls_sortQueue: "distinct (map url (sortQueue q)) \<longleftrightarrow> distinct (map url q)"
  unfolding sortQueue_def
  by (induction q) (auto simp: distinct_urls_insertBy set_arraySort)

subsection \<open>Effects and the multi-pass loop\<close>

text \<open>The observations read the trace only.\<close>

lemma generatorCalls_update [simp]:
  "generatorCalls (s\<lparr>isRunning := x0\<rparr>) = generatorCalls s"
  "generatorCalls (s\<lparr>isPaused := x1\<rparr>) = generatorCalls s"
  "generatorCalls (s\<lparr>abortController := x2\<rparr>) = generatorCalls s"
  "generatorCalls (s\<lparr>orchestrator := x3\<rparr>) = generatorCalls s"
  "generatorCalls (s\<lparr>queue := x4\<rparr>) = generatorCalls s"
  "generatorCalls (s\<lparr>processedToday := x5\<rparr>) = generatorCalls s"
  "generatorCalls (s\<lparr>lastScanTime := x6\<rparr>) = generatorCalls s"
  "generatorCalls (s\<lparr>cycleCount := x7\<rparr>) = generatorCalls s"
  "generatorCalls (s\<lparr>consecutiveFailures := x8\<rparr>) = generatorCalls s"
  "generatorCalls (s\<lparr>circuitBrokenUntil := x9\<rparr>) = generatorCalls s"
  "generatorCalls (s\<lparr>qualityScoreHistory := x10\<rparr>) = generatorCalls s"
  "generatorCalls (s\<lparr>processingTimeHistory := x11\<rparr>) = generatorCalls s"
  "generatorCalls (s\<lparr>clock := x12\<rparr>) = generatorCalls s"
  "generatorCalls (s\<lparr>calls := x13\<rparr>) = generatorCalls s"
  "generatorCalls (s\<lparr>awaits := x14\<rparr>) = generatorCalls s"
  "generatorCalls (s\<lparr>uuids := x15\<rparr>) = generatorCalls s"
  by (simp_all add: generatorCalls_def)

lemma pauses_update [simp]:
  "pauses (s\<lparr>isRunning := x0\<rparr>) = pauses s"
  "pauses (s\<lparr>isPaused := x1\<rparr>) = pauses s"
  "pauses (s\<lparr>abortController := x2\<rparr>) = pauses s"
  "pauses (s\<lparr>orchestrator := x3\<rparr>) = pauses s"
  "pauses (s\<lparr>queue := x4\<rparr>) = pauses s"
  "pauses (s\<lparr>processedToday := x5\<rparr>) = pauses s"
  "pauses (s\<lparr>lastScanTime := x6\<rparr>) = pauses s"
  "pauses (s\<lparr>cycleCount := x7\<rparr>) = pauses s"
  "pauses (s\<lparr>consecutiveFailures := x8\<rparr>) = pauses s"
  "pauses (s\<lparr>circuitBrokenUntil := x9\<rparr>) = pauses s"
  "pauses (s\<lparr>qualityScoreHistory := x10\<rparr>) = pauses s"
  "pauses (s\<lparr>processingTimeHistory := x11\<rparr>) = pauses s"
  "pauses (s\<lparr>clock := x12\<rparr>) = pauses s"
  "pauses (s\<lparr>calls := x13\<rparr>) = pauses s"
  "pauses (s\<lparr>awaits := x14\<rparr>) = pauses s"
  "pauses (s\<lparr>uuids := x15\<rparr>) = pauses s"
  by (simp_all add: pauses_def)

lemma analyzedUrls_update [simp]:
  "analyzedUrls (s\<lparr>isRunning := x0\<rparr>) = analyzedUrls s"
  "analyzedUrls (s\<lparr>isPaused := x1\<rparr>) = analyzedUrls s"
  "analyzedUrls (s\<lparr>abortController := x2\<rparr>) = analyzedUrls s"
  "analyzedUrls (s\<lparr>orchestrator := x3\<rparr>) = analyzedUrls s"
  "analyzedUrls (s\<lparr>queue := x4\<rparr>) = analyzedUrls s"
  "analyzedUrls (s\<lparr>processedToday := x5\<rparr>) = analyzedUrls s"
  "analyzedUrls (s\<lparr>lastScanTime := x6\<rparr>) = analyzedUrls s"
  "analyzedUrls (s\<lparr>cycleCount := x7\<rparr>) = analyzedUrls s"
  "analyzedUrls (s\<lparr>consecutiveFailures := x8\<rparr>) = analyzedUrls s"
  "analyzedUrls (s\<lparr>circuitBrokenUntil := x9\<rparr>) = analyzedUrls s"
  "analyzedUrls (s\<lparr>qualityScoreHistory := x10\<rparr>) = analyzedUrls s"
  "analyzedUrls (s\<lparr>processingTimeHistory := x11\<rparr>) = analyzedUrls s"
  "analyzedUrls (s\<lparr>clock := x12\<rparr>) = analyzedUrls s"
  "analyzedUrls (s\<lparr>calls := x13\<rparr>) = analyzedUrls s"
  "analyzedUrls (s\<lparr>awaits := x14\<rparr>) = analyzedUrls s"
  "analyzedUrls (s\<lparr>uuids := x15\<rparr>) = analyzedUrls s"
  by (simp_all add: analyzedUrls_def)

lemma historyEntries_update [simp]:
  "historyEntries (s\<lparr>isRunning := x0\<rparr>) = historyEntries s"
  "historyEntries (s\<lparr>isPaused := x1\<rparr>) = historyEntries s"
  "historyEntries (s\<lparr>abortController := x2\<rparr>) = historyEntries s"
  "historyEntries (s\<lparr>orchestrator := x3\<rparr>) = historyEntries s"
  "historyEntries (s\<lparr>queue := x4\<rparr>) = historyEntries s"
  "historyEntries (s\<lparr>processedToday := x5\<rparr>) = historyEntries s"
  "historyEntries (s\<lparr>lastScanTime := x6\<rparr>) = historyEntries s"
  "historyEntries (s\<lparr>cycleCount := x7\<rparr>) = historyEntries s"
  "historyEntries (s\<lparr>consecutiveFailures := x8\<rparr>) = historyEntries s"
  "historyEntries (s\<lparr>circuitBrokenUntil := x9\<rparr>) = historyEntries s"
  "historyEntries (s\<lparr>qualityScoreHistory := x10\<rparr>) = historyEntries s"
  "historyEntries (s\<lparr>processingTimeHistory := x11\<rparr>) = historyEntries s"
  "historyEntries (s\<lparr>clock := x12\<rparr>) = historyEntries s"
  "historyEntries (s\<lparr>calls := x13\<rparr>) = historyEntries s"
  "historyEntries (s\<lparr>awaits := x14\<rparr>) = historyEntries s"
  "historyEntries (s\<lparr>uuids := x15\<rparr>) = historyEntries s"
  by (simp_all add: historyEntries_def)

lemma scanEvents_update [simp]:
  "scanEvents (s\<lparr>isRunning := x0\<rparr>) = scanEvents s"
  "scanEvents (s\<lparr>isPaused := x1\<rparr>) = scanEvents s"
  "scanEvents (s\<lparr>abortController := x2\<rparr>) = scanEvents s"
  "scanEvents (s\<lparr>orchestrator := x3\<rparr>) = scanEvents s"
  "scanEvents (s\<lparr>queue := x4\<rparr>) = scanEvents s"
  "scanEvents (s\<lparr>processedToday := x5\<rparr>) = scanEvents s"
  "scanEvents (s\<lparr>lastScanTime := x6\<rparr>) = scanEvents s"
  "scanEvents (s\<lparr>cycleCount := x7\<rparr>) = scanEvents s"
  "scanEvents (s\<lparr>consecutiveFailures := x8\<rparr>) = scanEvents s"
  "scanEvents (s\<lparr>circuitBrokenUntil := x9\<rparr>) = scanEvents s"
  "scanEvents (s\<lparr>qualityScoreHistory := x10\<rparr>) = scanEvents s"
  "scanEvents (s\<lparr>processingTimeHistory := x11\<rparr>) = scanEvents s"
  "scanEvents (s\<lparr>clock := x12\<rparr>) = scanEvents s"
  "scanEvents (s\<lparr>calls := x13\<rparr>) = scanEvents s"
  "scanEvents (s\<lparr>awaits := x14\<rparr>) = scanEvents s"
  "scanEvents (s\<lparr>uuids := x15\<rparr>) = scanEvents s"
  by (simp_all add: scanEvents_def)

text \<open>What the elementary effects change.\<close>

lemma generatorCalls_emit [simp]:
  "generatorCalls (emit e s) = generatorCalls s + (if isGenerateCall e then 1 else 0)"
  "generatorCalls (log t m s) = generatorCalls s"
  "generatorCalls (updateState us s) = generatorCalls s"
  "generatorCalls (addToHistory h s) = generatorCalls s"
  "generatorCalls (updateStats q wc ok s) = generatorCalls s"
  by (simp_all add: generatorCalls_def effect_defs)

lemma pauses_emit [simp]:
  "pauses (emit e s) = pauses s + (if e = Sleep 2000 then 1 else 0)"
  "pauses (log t m s) = pauses s"
  "pauses (updateState us s) = pauses s"
  "pauses (addToHistory h s) = pauses s"
  "pauses (updateStats q wc ok s) = pauses s"
  by (simp_all add: pauses_def effect_defs)

lemma analyzedUrls_emit [simp]:
  "analyzedUrls (emit e s) = analyzedUrls s @ analyzedUrl e"
  "analyzedUrls (log t m s) = analyzedUrls s"
  "analyzedUrls (updateState us s) = analyzedUrls s"
  "analyzedUrls (addToHistory h s) = analyzedUrls s"
  "analyzedUrls (updateStats q wc ok s) = analyzedUrls s"
  by (simp_all add: analyzedUrls_def effect_defs)

lemma historyEntries_emit [simp]:
  "historyEntries (emit e s) = historyEntries s @ historyOf e"
  "historyEntries (log t m s) = historyEntries s"
  "historyEntries (updateState us s) = historyEntries s @ concat (map historyField us)"
  "historyEntries (addToHistory h s) = historyEntries s @ [h]"
  "historyEntries (updateStats q wc ok s) = historyEntries s"
  by (simp_all add: historyEntries_def effect_defs)

lemma scanEvents_emit [simp]:
  "scanEvents (emit e s) = scanEvents s @ (if scanEvent e then [e] else [])"
  "scanEvents (log t m s) = scanEvents s @ (if scanEvent (Log t m) then [Log t m] else [])"
  "scanEvents (updateState us s)
     = scanEvents s @ (if scanEvent (StateUpdate us) then [StateUpdate us] else [])"
  "scanEvents (addToHistory h s) = scanEvents s"
  "scanEvents (updateStats q wc ok s) = scanEvents s"
  by (simp_all add: scanEvents_def effect_defs)

lemma core_update [simp]:
  "core (s\<lparr>isRunning := x0\<rparr>) = core s"
  "core (s\<lparr>isPaused := x1\<rparr>) = core s"
  "core (s\<lparr>abortController := x2\<rparr>) = core s"
  "core (s\<lparr>clock := x3\<rparr>) = core s"
  "core (s\<lparr>calls := x4\<rparr>) = core s"
  "core (s\<lparr>awaits := x5\<rparr>) = core s"
  "core (s\<lparr>uuids := x6\<rparr>) = core s"
  "core (s\<lparr>trace := x7\<rparr>) = core s"
  by (simp_all add: core_def)

lemma core_emit [simp]:
  "core (emit e s) = core s"
  "core (log t m s) = core s"
  "core (updateState us s) = core s"
  "core (addToHistory h s) = core s"
  "core (updateStats q wc ok s) = core s"
  by (simp_all add: core_def effect_defs)

lemma calls_emit [simp]:
  "calls (emit e s) = calls s"
  "calls (log t m s) = calls s"
  "calls (updateState us s) = calls s"
  "calls (addToHistory h s) = calls s"
  "calls (updateStats q wc ok s) = calls s"
  by (simp_all add: effect_defs)

lemma clock_emit [simp]:
  "clock (emit e s) = clock s"
  "clock (log t m s) = clock s"
  "clock (updateState us s) = clock s"
  "clock (addToHistory h s) = clock s"
  "clock (updateStats q wc ok s) = clock s"
  by (simp_all add: effect_defs)

text \<open>
  The control methods write the three control fields and log; an await therefore leaves
  everything else as it is.
\<close>

lemma controls_frame [simp]:
  "core (stop s) = core s" "core (pause s) = core s" "core (resume s) = core s"
  "calls (stop s) = calls s" "calls (pause s) = calls s" "calls (resume s) = calls s"
  "clock (stop s) = clock s" "clock (pause s) = clock s" "clock (resume s) = clock s"
  "generatorCalls (stop s) = generatorCalls s" "generatorCalls (pause s) = generatorCalls s"
  "generatorCalls (resume s) = generatorCalls s"
  "pauses (stop s) = pauses s" "pauses (pause s) = pauses s" "pauses (resume s) = pauses s"
  "analyzedUrls (stop s) = analyzedUrls s" "analyzedUrls (pause s) = analyzedUrls s"
  "analyzedUrls (resume s) = analyzedUrls s"
  "historyEntries (stop s) = historyEntries s" "historyEntries (pause s) = historyEntries s"
  "historyEntries (resume s) = historyEntries s"
  "scanEvents (stop s) = scanEvents s" "scanEvents (pause s) = scanEvents s"
  "scanEvents (resume s) = scanEvents s"
  by (simp_all add: stop_def pause_def resume_def Let_def)

lemma await_keeps:
  assumes "\<And>t. f (stop t) = f t" and "\<And>t. f (pause t) = f t" and "\<And>t. f (resume t) = f t"
    and "\<And>t n. f (t\<lparr>awaits := n\<rparr>) = f t"
  shows "f (await w s) = f s"
proof -
  have "f (fold applyControl cs t) = f t" for cs t
  proof (induction cs arbitrary: t)
    case Nil
    show ?case by simp
  next
    case (Cons c cs)
    have "f (applyControl c t) = f t" by (cases c) (simp_all add: assms)
    with Cons show ?case by simp
  qed
  then show ?thesis by (simp add: await_def assms(4))
qed

lemma await_frame [simp]:
  "core (await w s) = core s"
  "calls (await w s) = calls s"
  "clock (await w s) = clock s"
  "generatorCalls (await w s) = generatorCalls s"
  "pauses (await w s) = pauses s"
  "analyzedUrls (await w s) = analyzedUrls s"
  "historyEntries (await w s) = historyEntries s"
  "scanEvents (await w s) = scanEvents s"
  by (rule await_keeps; simp)+

lemma sleep_frame [simp]:
  "core (sleep w ms s) = core s"
  "calls (sleep w ms s) = calls s"
  "generatorCalls (sleep w ms s) = generatorCalls s"
  "pauses (sleep w ms s) = pauses s + (if ms = 2000 then 1 else 0)"
  "analyzedUrls (sleep w ms s) = analyzedUrls s"
  "historyEntries (sleep w ms s) = historyEntries s"
  "scanEvents (sleep w ms s) = scanEvents s"
  by (simp_all add: sleep_def Let_def)

lemma called_frame [simp]:
  "core (called w e s) = core s"
  "calls (called w e s) = calls s + 1"
  "clock (called w e s) = clock s + latency w (calls s)"
  "generatorCalls (called w e s) = generatorCalls s + (if isGenerateCall e then 1 else 0)"
  "pauses (called w e s) = pauses s + (if e = Sleep 2000 then 1 else 0)"
  "analyzedUrls (called w e s) = analyzedUrls s @ analyzedUrl e"
  "historyEntries (called w e s) = historyEntries s @ historyOf e"
  "scanEvents (called w e s) = scanEvents s @ (if scanEvent e then [e] else [])"
  by (simp_all add: called_def)

text \<open>Two states with the same core agree on every field that the phases own.\<close>

lemma core_fields:
  assumes "core a = core b"
  shows "queue a = queue b" "consecutiveFailures a = consecutiveFailures b"
    "circuitBrokenUntil a = circuitBrokenUntil b" "lastScanTime a = lastScanTime b"
    "orchestrator a = orchestrator b" "processedToday a = processedToday b"
    "cycleCount a = cycleCount b"
proof -
  have "queue (core a) = queue (core b)" "consecutiveFailures (core a) = consecutiveFailures (core b)"
    "circuitBrokenUntil (core a) = circuitBrokenUntil (core b)"
    "lastScanTime (core a) = lastScanTime (core b)"
    "orchestrator (core a) = orchestrator (core b)"
    "processedToday (core a) = processedToday (core b)" "cycleCount (core a) = cycleCount (core b)"
    using assms by simp_all
  then show "queue a = queue b" "consecutiveFailures a = consecutiveFailures b"
    "circuitBrokenUntil a = circuitBrokenUntil b" "lastScanTime a = lastScanTime b"
    "orchestrator a = orchestrator b" "processedToday a = processedToday b"
    "cycleCount a = cycleCount b"
    by (simp_all add: core_def)
qed

lemma field_effects [simp]:
  "queue (emit e s) = queue s"
  "queue (log t m s) = queue s"
  "queue (updateState us s) = queue s"
  "queue (addToHistory h s) = queue s"
  "queue (updateStats q wc ok s) = queue s"
  "queue (sleep w ms s) = queue s"
  "queue (called w e s) = queue s"
  "queue (await w s) = queue s"
  "consecutiveFailures (log t m s) = consecutiveFailures s"
  "consecutiveFailures (updateState us s) = consecutiveFailures s"
  "consecutiveFailures (addToHistory h s) = consecutiveFailures s"
  "consecutiveFailures (updateStats q wc ok s) = consecutiveFailures s"
  "consecutiveFailures (sleep w ms s) = consecutiveFailures s"
  "consecutiveFailures (called w e s) = consecutiveFailures s"
  "circuitBrokenUntil (log t m s) = circuitBrokenUntil s"
  "circuitBrokenUntil (updateState us s) = circuitBrokenUntil s"
  "circuitBrokenUntil (addToHistory h s) = circuitBrokenUntil s"
  "circuitBrokenUntil (updateStats q wc ok s) = circuitBrokenUntil s"
  "circuitBrokenUntil (sleep w ms s) = circuitBrokenUntil s"
  "circuitBrokenUntil (called w e s) = circuitBrokenUntil s"
  "lastScanTime (log t m s) = lastScanTime s"
  "lastScanTime (updateState us s) = lastScanTime s"
  "lastScanTime (addToHistory h s) = lastScanTime s"
  "lastScanTime (updateStats q wc ok s) = lastScanTime s"
  "lastScanTime (sleep w ms s) = lastScanTime s"
  "lastScanTime (called w e s) = lastScanTime s"
  "orchestrator (log t m s) = orchestrator s"
  "orchestrator (updateState us s) = orchestrator s"
  "orchestrator (sleep w ms s) = orchestrator s"
  "orchestrator (called w e s) = orchestrator s"
  "processedToday (sleep w ms s) = processedToday s"
proof -
  note eff = core_fields [OF sleep_frame(1)] core_fields [OF called_frame(1)]
    core_fields [OF await_frame(1)] core_fields [OF core_emit(1)] core_fields [OF core_emit(2)]
    core_fields [OF core_emit(3)] core_fields [OF core_emit(4)] core_fields [OF core_emit(5)]
  show "queue (emit e s) = queue s"
  "queue (log t m s) = queue s"
  "queue (updateState us s) = queue s"
  "queue (addToHistory h s) = queue s"
  "queue (updateStats q wc ok s) = queue s"
  "queue (sleep w ms s) = queue s"
  "queue (called w e s) = queue s"
  "queue (await w s) = queue s"
  "consecutiveFailures (log t m s) = consecutiveFailures s"
  "consecutiveFailures (updateState us s) = consecutiveFailures s"
  "consecutiveFailures (addToHistory h s) = consecutiveFailures s"
  "consecutiveFailures (updateStats q wc ok s) = consecutiveFailures s"
  "consecutiveFailures (sleep w ms s) = consecutiveFailures s"
  "consecutiveFailures (called w e s) = consecutiveFailures s"
  "circuitBrokenUntil (log t m s) = circuitBrokenUntil s"
  "circuitBrokenUntil (updateState us s) = circuitBrokenUntil s"
  "circuitBrokenUntil (addToHistory h s) = circuitBrokenUntil s"
  "circuitBrokenUntil (updateStats q wc ok s) = circuitBrokenUntil s"
  "circuitBrokenUntil (sleep w ms s) = circuitBrokenUntil s"
  "circuitBrokenUntil (called w e s) = circuitBrokenUntil s"
  "lastScanTime (log t m s) = lastScanTime s"
  "lastScanTime (updateState us s) = lastScanTime s"
  "lastScanTime (addToHistory h s) = lastScanTime s"
  "lastScanTime (updateStats q wc ok s) = lastScanTime s"
  "lastScanTime (sleep w ms s) = lastScanTime s"
  "lastScanTime (called w e s) = lastScanTime s"
  "orchestrator (log t m s) = orchestrator s"
  "orchestrator (updateState us s) = orchestrator s"
  "orchestrator (sleep w ms s) = orchestrator s"
  "orchestrator (called w e s) = orchestrator s"
  "processedToday (sleep w ms s) = processedToday s"
    by (simp_all add: eff)
qed

lemma core_generationPasses:
  "core (snd (generationPasses w k m cont q p s)) = core s"
proof (induction w k m cont q p s rule: generationPasses.induct)
  case (1 w keyword maxPasses cont qualityScore passCount s)
  show ?case
    apply (subst generationPasses.simps)
    apply (simp add: Let_def split: generate_outcome.split)
    using 1 by (auto simp: Let_def)
qed

text \<open>One pass of the loop, by the answer of the generator.\<close>

lemma pass_done:
  "\<not> p < m \<Longrightarrow> generationPasses w k m cont q p s = (Inr (cont, q, p), s)"
  by (subst generationPasses.simps) simp

lemma pass_throws:
  "p < m \<Longrightarrow> passQuality w k (calls s) = None \<Longrightarrow>
     \<exists>e. generationPasses w k m cont q p s = (Inl e, called w (GenerateCall k) s)"
  by (subst generationPasses.simps)
     (simp add: passQuality_def Let_def split: generate_outcome.splits)

lemma pass_reaches_target:
  "p < m \<Longrightarrow> passQuality w k (calls s) = Some v \<Longrightarrow> MIN_QUALITY_SCORE \<le> v \<Longrightarrow>
     \<exists>c. generationPasses w k m cont q p s
       = (Inr (Some c, v, p + 1),
          log success ''Target quality achieved!''
            (log info ''Pass complete'' (called w (GenerateCall k) s)))"
  by (subst generationPasses.simps)
     (auto simp add: passQuality_def Let_def split: generate_outcome.splits)

lemma pass_below_more:
  "p + 1 < m \<Longrightarrow> passQuality w k (calls s) = Some v \<Longrightarrow> v < MIN_QUALITY_SCORE \<Longrightarrow>
     \<exists>c. generationPasses w k m cont q p s
       = generationPasses w k m (Some c) v (p + 1)
           (sleep w 2000
              (log info ''Quality below target, initiating improvement pass''
                 (log info ''Pass complete'' (called w (GenerateCall k) s))))"
  by (subst generationPasses.simps)
     (auto simp add: passQuality_def Let_def split: generate_outcome.splits)

lemma pass_below_last:
  "p < m \<Longrightarrow> \<not> p + 1 < m \<Longrightarrow> passQuality w k (calls s) = Some v \<Longrightarrow> v < MIN_QUALITY_SCORE \<Longrightarrow>
     \<exists>c. generationPasses w k m cont q p s
       = (Inr (Some c, v, p + 1), log info ''Pass complete'' (called w (GenerateCall k) s))"
  by (subst generationPasses.simps)
     (auto simp add: passQuality_def Let_def pass_done split: generate_outcome.splits)

lemma generatorCalls_bound:
  "generatorCalls (snd (generationPasses w k m cont q p s)) \<le> generatorCalls s + (m - p)"
proof (induction w k m cont q p s rule: generationPasses.induct)
  case (1 w keyword maxPasses cont qualityScore passCount s)
  show ?case
    apply (subst generationPasses.simps)
    apply (simp add: Let_def split: generate_outcome.split)
    using 1 by (fastforce simp: Let_def)
qed

lemma belowTarget_Suc:
  "belowTarget w k base (Suc j) \<longleftrightarrow>
     (\<exists>v. passQuality w k base = Some v \<and> v < MIN_QUALITY_SCORE) \<and> belowTarget w k (Suc base) j"
  by (auto split: option.splits)

declare belowTarget.simps(2) [simp del]

lemma stops_at_target:
  "p + j < m \<Longrightarrow> belowTarget w k (calls s) j \<Longrightarrow>
   passQuality w k (calls s + j) = Some v \<Longrightarrow> MIN_QUALITY_SCORE \<le> v \<Longrightarrow>
     generatorCalls (snd (generationPasses w k m cont q p s)) = generatorCalls s + j + 1
     \<and> pauses (snd (generationPasses w k m cont q p s)) = pauses s + j
     \<and> (\<exists>c. fst (generationPasses w k m cont q p s) = Inr (Some c, v, p + j + 1))"
proof (induction j arbitrary: p s cont q)
  case 0
  then obtain c where "generationPasses w k m cont q p s
       = (Inr (Some c, v, p + 1),
          log success ''Target quality achieved!''
            (log info ''Pass complete'' (called w (GenerateCall k) s)))"
    using pass_reaches_target [of p m w k s v cont q] by auto
  then show ?case by simp
next
  case (Suc j)
  from Suc.prems(2) obtain v0 where v0: "passQuality w k (calls s) = Some v0" "v0 < MIN_QUALITY_SCORE"
    and rest: "belowTarget w k (Suc (calls s)) j"
    by (auto simp: belowTarget_Suc)
  define s' where "s' = sleep w 2000
              (log info ''Quality below target, initiating improvement pass''
                 (log info ''Pass complete'' (called w (GenerateCall k) s)))"
  from v0 Suc.prems(1) obtain c where step:
    "generationPasses w k m cont q p s = generationPasses w k m (Some c) v0 (p + 1) s'"
    using pass_below_more [of p m w k s v0 cont q] by (auto simp: s'_def)
  have cs: "calls s' = Suc (calls s)" "generatorCalls s' = generatorCalls s + 1"
    "pauses s' = pauses s + 1"
    by (simp_all add: s'_def)
  have "generatorCalls (snd (generationPasses w k m (Some c) v0 (p + 1) s')) = generatorCalls s' + j + 1
     \<and> pauses (snd (generationPasses w k m (Some c) v0 (p + 1) s')) = pauses s' + j
     \<and> (\<exists>c'. fst (generationPasses w k m (Some c) v0 (p + 1) s') = Inr (Some c', v, p + 1 + j + 1))"
    using Suc.prems rest by (intro Suc.IH) (simp_all add: cs)
  then show ?case by (simp add: step cs)
qed

lemma observers_mono_generationPasses:
  "generatorCalls s \<le> generatorCalls (snd (generationPasses w k m cont q p s))
   \<and> pauses s \<le> pauses (snd (generationPasses w k m cont q p s))"
proof (induction w k m cont q p s rule: generationPasses.induct)
  case (1 w keyword maxPasses cont qualityScore passCount s)
  show ?case
    apply (subst (1 2) generationPasses.simps)
    apply (simp add: Let_def split: generate_outcome.split)
    using 1 by (fastforce simp: Let_def)
qed

lemma at_least_one_pass:
  assumes "p < m"
  shows "generatorCalls s + 1 \<le> generatorCalls (snd (generationPasses w k m cont q p s))"
proof (cases "passQuality w k (calls s)")
  case None
  then show ?thesis using pass_throws [OF assms, of w k s cont q] by auto
next
  case (Some v)
  show ?thesis
  proof (cases "MIN_QUALITY_SCORE \<le> v")
    case True
    then show ?thesis using pass_reaches_target [OF assms Some, of cont q] by auto
  next
    case below: False
    show ?thesis
    proof (cases "p + 1 < m")
      case True
      then obtain c where "generationPasses w k m cont q p s
       = generationPasses w k m (Some c) v (p + 1)
           (sleep w 2000
              (log info ''Quality below target, initiating improvement pass''
                 (log info ''Pass complete'' (called w (GenerateCall k) s))))"
        using pass_below_more [OF _ Some, of p m cont q] below by auto
      then show ?thesis
        using observers_mono_generationPasses [of "sleep w 2000
              (log info ''Quality below target, initiating improvement pass''
                 (log info ''Pass complete'' (called w (GenerateCall k) s)))" w k m "Some c" v "p + 1"]
        by simp
    next
      case False
      then show ?thesis using pass_below_last [OF assms _ Some, of cont q] below by auto
    qed
  qed
qed

lemma continues_below_target:
  "p + j + 1 < m \<Longrightarrow> belowTarget w k (calls s) (Suc j) \<Longrightarrow>
     generatorCalls s + j + 2 \<le> generatorCalls (snd (generationPasses w k m cont q p s))
     \<and> pauses s + j + 1 \<le> pauses (snd (generationPasses w k m cont q p s))"
proof (induction j arbitrary: p s cont q)
  case 0
  from 0 obtain v0 where v0: "passQuality w k (calls s) = Some v0" "v0 < MIN_QUALITY_SCORE"
    by (auto simp: belowTarget_Suc)
  define s' where "s' = sleep w 2000
              (log info ''Quality below target, initiating improvement pass''
                 (log info ''Pass complete'' (called w (GenerateCall k) s)))"
  from v0 0 obtain c where step:
    "generationPasses w k m cont q p s = generationPasses w k m (Some c) v0 (p + 1) s'"
    using pass_below_more [of p m w k s v0 cont q] by (auto simp: s'_def)
  have cs: "calls s' = Suc (calls s)" "generatorCalls s' = generatorCalls s + 1"
    "pauses s' = pauses s + 1"
    by (simp_all add: s'_def)
  have "generatorCalls s' + 1 \<le> generatorCalls (snd (generationPasses w k m (Some c) v0 (p + 1) s'))"
    using 0 by (intro at_least_one_pass) simp
  moreover have "pauses s' \<le> pauses (snd (generationPasses w k m (Some c) v0 (p + 1) s'))"
    using observers_mono_generationPasses by blast
  ultimately show ?case by (simp add: step cs)
next
  case (Suc j)
  from Suc.prems obtain v0 where v0: "passQuality w k (calls s) = Some v0" "v0 < MIN_QUALITY_SCORE"
    and rest: "belowTarget w k (Suc (calls s)) (Suc j)"
    by (auto simp: belowTarget_Suc [of w k "calls s"])
  define s' where "s' = sleep w 2000
              (log info ''Quality below target, initiating improvement pass''
                 (log info ''Pass complete'' (called w (GenerateCall k) s)))"
  from v0 Suc.prems obtain c where step:
    "generationPasses w k m cont q p s = generationPasses w k m (Some c) v0 (p + 1) s'"
    using pass_below_more [of p m w k s v0 cont q] by (auto simp: s'_def)
  have cs: "calls s' = Suc (calls s)" "generatorCalls s' = generatorCalls s + 1"
    "pauses s' = pauses s + 1"
    by (simp_all add: s'_def)
  have "generatorCalls s' + j + 2 \<le> generatorCalls (snd (generationPasses w k m (Some c) v0 (p + 1) s'))
     \<and> pauses s' + j + 1 \<le> pauses (snd (generationPasses w k m (Some c) v0 (p + 1) s'))"
    using Suc.prems rest by (intro Suc.IH) (simp_all add: cs)
  then show ?case by (simp add: step cs)
qed

subsection \<open>The scoring and enqueueing loops\<close>

lemma analyzedUrls_scoreUrl: "analyzedUrls (scoreUrl w opts u s) = analyzedUrls s @ [u]"
  by (simp add: scoreUrl_def Let_def split: sum.split)

lemma queue_scoreUrl:
  "queue (scoreUrl w opts u s) = queue s
   \<or> (u \<notin> url ` set (queue s)
       \<and> (\<exists>item. queue (scoreUrl w opts u s) = queue s @ [item] \<and> url item = u \<and> retryCount item = 0))"
  by (auto simp add: scoreUrl_def Let_def list_ex_iff split: sum.split)

lemma analyzedUrls_scoreUrls:
  "\<exists>k\<le>length us. analyzedUrls (scoreUrls w opts us s) = analyzedUrls s @ take k us"
proof (induction us arbitrary: s)
  case Nil
  then show ?case by simp
next
  case (Cons u us)
  show ?case
  proof (cases "signalAborted s \<or> isPaused s")
    case True
    then have "analyzedUrls (scoreUrls w opts (u # us) s) = analyzedUrls s @ take 0 (u # us)"
      by simp
    then show ?thesis by blast
  next
    case False
    from Cons.IH [of "scoreUrl w opts u s"] obtain k where "k \<le> length us"
      "analyzedUrls (scoreUrls w opts us (scoreUrl w opts u s))
         = analyzedUrls (scoreUrl w opts u s) @ take k us" by blast
    then have "Suc k \<le> length (u # us)"
      "analyzedUrls (scoreUrls w opts (u # us) s) = analyzedUrls s @ take (Suc k) (u # us)"
      using False by (simp_all add: analyzedUrls_scoreUrl)
    then show ?thesis by blast
  qed
qed

lemma queue_scoreUrls_urls:
  "url ` set (queue (scoreUrls w opts us s)) \<subseteq> url ` set (queue s) \<union> set us"
proof (induction us arbitrary: s)
  case Nil
  then show ?case by simp
next
  case (Cons u us)
  have "url ` set (queue (scoreUrl w opts u s)) \<subseteq> insert u (url ` set (queue s))"
    using queue_scoreUrl [of w opts u s] by auto
  with Cons.IH [of "scoreUrl w opts u s"] show ?case by auto
qed

lemma distinct_scoreUrl:
  "distinct (map url (queue s)) \<Longrightarrow> distinct (map url (queue (scoreUrl w opts u s)))"
  using queue_scoreUrl [of w opts u s] by auto

lemma distinct_scoreUrls:
  "distinct (map url (queue s)) \<Longrightarrow> distinct (map url (queue (scoreUrls w opts us s)))"
  by (induction us arbitrary: s) (simp_all add: distinct_scoreUrl)

lemma retries_scoreUrl:
  "list_all (\<lambda>q. retryCount q \<le> m) (queue s) \<Longrightarrow> list_all (\<lambda>q. retryCount q \<le> m) (queue (scoreUrl w opts u s))"
  using queue_scoreUrl [of w opts u s] by auto

lemma retries_scoreUrls:
  "list_all (\<lambda>q. retryCount q \<le> m) (queue s) \<Longrightarrow> list_all (\<lambda>q. retryCount q \<le> m) (queue (scoreUrls w opts us s))"
  by (induction us arbitrary: s) (simp_all add: retries_scoreUrl)

lemma queue_enqueuePriorityUrl:
  "queue (enqueuePriorityUrl w opts p s) = queue s
   \<or> (fst p \<notin> url ` set (queue s)
       \<and> (\<exists>item. queue (enqueuePriorityUrl w opts p s) = queue s @ [item] \<and> url item = fst p \<and> retryCount item = 0))"
  by (auto simp add: enqueuePriorityUrl_def Let_def list_ex_iff)

lemma distinct_enqueuePriorityUrls:
  "distinct (map url (queue s)) \<Longrightarrow> distinct (map url (queue (enqueuePriorityUrls w opts ps s)))"
proof (induction ps arbitrary: s)
  case Nil
  then show ?case by simp
next
  case (Cons p ps)
  have "distinct (map url (queue (enqueuePriorityUrl w opts p s)))"
    using queue_enqueuePriorityUrl [of w opts p s] Cons.prems by auto
  then show ?case by (simp add: Cons.IH)
qed

lemma retries_enqueuePriorityUrls:
  "list_all (\<lambda>q. retryCount q \<le> m) (queue s) \<Longrightarrow> list_all (\<lambda>q. retryCount q \<le> m) (queue (enqueuePriorityUrls w opts ps s))"
proof (induction ps arbitrary: s)
  case Nil
  then show ?case by simp
next
  case (Cons p ps)
  have "list_all (\<lambda>q. retryCount q \<le> m) (queue (enqueuePriorityUrl w opts p s))"
    using queue_enqueuePriorityUrl [of w opts p s] Cons.prems by auto
  then show ?case by (simp add: Cons.IH)
qed

subsection \<open>Publishing and generation\<close>

lemma observers_recordSuccess [simp]:
  "generatorCalls (recordSuccess q t s) = generatorCalls s"
  "historyEntries (recordSuccess q t s) = historyEntries s"
  "scanEvents (recordSuccess q t s) = scanEvents s"
  "calls (recordSuccess q t s) = calls s"
  "queue (recordSuccess q t s) = queue s"
  "consecutiveFailures (recordSuccess q t s) = 0"
  "circuitBrokenUntil (recordSuccess q t s) = circuitBrokenUntil s"
  "lastScanTime (recordSuccess q t s) = lastScanTime s"
  by (simp_all add: recordSuccess_def generatorCalls_def historyEntries_def scanEvents_def)

lemma observers_recordFailure [simp]:
  "generatorCalls (recordFailure s) = generatorCalls s"
  "historyEntries (recordFailure s) = historyEntries s"
  "scanEvents (recordFailure s) = scanEvents s"
  "calls (recordFailure s) = calls s"
  "queue (recordFailure s) = queue s"
  "lastScanTime (recordFailure s) = lastScanTime s"
  "clock (recordFailure s) = clock s"
  "consecutiveFailures (recordFailure s) = consecutiveFailures s + 1"
  "circuitBrokenUntil (recordFailure s)
     = (if CIRCUIT_BREAKER_THRESHOLD \<le> consecutiveFailures s + 1
        then Some (clock s + CIRCUIT_BREAKER_RESET_MS) else circuitBrokenUntil s)"
  by (simp_all add: recordFailure_def Let_def generatorCalls_def historyEntries_def
        scanEvents_def effect_defs)

lemma history_generationPasses [simp]:
  "historyEntries (snd (generationPasses w k m cont q p s)) = historyEntries s"
proof (induction w k m cont q p s rule: generationPasses.induct)
  case (1 w keyword maxPasses cont qualityScore passCount s)
  show ?case
    apply (subst generationPasses.simps)
    apply (simp add: Let_def split: generate_outcome.split)
    using 1 by (auto simp: Let_def)
qed

lemma scanEvents_generationPasses [simp]:
  "scanEvents (snd (generationPasses w k m cont q p s)) = scanEvents s"
proof (induction w k m cont q p s rule: generationPasses.induct)
  case (1 w keyword maxPasses cont qualityScore passCount s)
  show ?case
    apply (subst generationPasses.simps)
    apply (simp add: Let_def split: generate_outcome.split)
    using 1 by (auto simp: Let_def)
qed

text \<open>The publishing phase.\<close>

lemma publishAttempt_frame:
  "core (snd (publishAttempt w opts item c s)) = core s
   \<and> generatorCalls (snd (publishAttempt w opts item c s)) = generatorCalls s
   \<and> historyEntries (snd (publishAttempt w opts item c s)) = historyEntries s
   \<and> scanEvents (snd (publishAttempt w opts item c s)) = scanEvents s"
  by (simp add: publishAttempt_def Let_def split: publish_outcome.split)

lemma runPublishPhase_frame:
  "core (runPublishPhase w opts item c pt q s) = core s
   \<and> generatorCalls (runPublishPhase w opts item c pt q s) = generatorCalls s
   \<and> scanEvents (runPublishPhase w opts item c pt q s) = scanEvents s"
proof -
  define s2 where
    "s2 = log info ''Publishing to WordPress...'' (updateState [CurrentPhase (Some publishing)] s)"
  obtain r s3 where r: "publishAttempt w opts item c s2 = (r, s3)" by (cases "publishAttempt w opts item c s2")
  from publishAttempt_frame [of w opts item c s2] r
  have "core s3 = core s" "generatorCalls s3 = generatorCalls s" "scanEvents s3 = scanEvents s"
    by (simp_all add: s2_def)
  then show ?thesis
    using r by (cases r) (simp_all add: runPublishPhase_def Let_def s2_def [symmetric])
qed

lemmas runPublishPhase_fields = core_fields [OF runPublishPhase_frame [THEN conjunct1]]

lemma runPublishPhase_history:
  "historyEntries (runPublishPhase w opts item c pt q s)
     = historyEntries s @
       [case fst (publishAttempt w opts item c
                    (log info ''Publishing to WordPress...''
                       (updateState [CurrentPhase (Some publishing)] s))) of
          Inr link \<Rightarrow>
            (emptyHistoryItem (url item) published)
               \<lparr>h_qualityScore := Some q, h_wordPressUrl := link,
                h_processingTimeMs := Some pt, h_wordCount := Some (wordCountOf c)\<rparr>
        | Inl e \<Rightarrow>
            (emptyHistoryItem (url item) error)
               \<lparr>h_qualityScore := Some q,
                h_error := Some (''Generated but publish failed: '' @ messageOf e ''Publish failed''),
                h_processingTimeMs := Some pt\<rparr>]"
proof -
  define s2 where
    "s2 = log info ''Publishing to WordPress...'' (updateState [CurrentPhase (Some publishing)] s)"
  obtain r s3 where r: "publishAttempt w opts item c s2 = (r, s3)" by (cases "publishAttempt w opts item c s2")
  from publishAttempt_frame [of w opts item c s2] r
  have "historyEntries s3 = historyEntries s"
    by (simp_all add: s2_def)
  then show ?thesis
    using r by (cases r) (simp_all add: runPublishPhase_def Let_def s2_def [symmetric])
qed

lemma afterPasses_frame:
  "generatorCalls (snd (afterPasses w opts item st cont q p s)) = generatorCalls s
   \<and> scanEvents (snd (afterPasses w opts item st cont q p s)) = scanEvents s
   \<and> queue (snd (afterPasses w opts item st cont q p s)) = queue s
   \<and> lastScanTime (snd (afterPasses w opts item st cont q p s)) = lastScanTime s
   \<and> circuitBrokenUntil (snd (afterPasses w opts item st cont q p s)) = circuitBrokenUntil s
   \<and> consecutiveFailures (snd (afterPasses w opts item st cont q p s)) = 0"
  by (cases cont)
     (simp_all add: afterPasses_def Let_def runPublishPhase_frame runPublishPhase_fields)

lemma afterPasses_throws:
  "fst (afterPasses w opts item st cont q p s) = Inl e \<Longrightarrow>
     cont = None \<and> historyEntries (snd (afterPasses w opts item st cont q p s)) = historyEntries s"
  by (cases cont) (simp_all add: afterPasses_def Let_def split: if_splits)

lemma generationFailed_frame:
  "generatorCalls (generationFailed w opts item st e s) = generatorCalls s
   \<and> scanEvents (generationFailed w opts item st e s) = scanEvents s
   \<and> lastScanTime (generationFailed w opts item st e s) = lastScanTime s
   \<and> consecutiveFailures (generationFailed w opts item st e s) = consecutiveFailures s + 1
   \<and> circuitBrokenUntil (generationFailed w opts item st e s)
       = (if CIRCUIT_BREAKER_THRESHOLD \<le> consecutiveFailures s + 1
          then Some (clock s + CIRCUIT_BREAKER_RESET_MS) else circuitBrokenUntil s)"
  by (simp add: generationFailed_def Let_def)

lemma generationFailed_retry:
  "retryCount item < retryAttempts (config opts) \<Longrightarrow>
     queue (generationFailed w opts item st e s)
       = sortQueue (queue s @ [item\<lparr>retryCount := retryCount item + 1,
                                   lastError := Some (messageOf e ''Generation failed'')\<rparr>])
     \<and> historyEntries (generationFailed w opts item st e s) = historyEntries s"
  by (simp add: generationFailed_def Let_def)

lemma generationFailed_exhausted:
  "\<not> retryCount item < retryAttempts (config opts) \<Longrightarrow>
     queue (generationFailed w opts item st e s) = queue s
     \<and> historyEntries (generationFailed w opts item st e s)
         = historyEntries s @
           [(emptyHistoryItem (url item) error)
              \<lparr>h_error := Some (''Max retries ('' @ digitsOf (retryCount item)
                   @ '') exceeded. Last error: '' @ messageOf e ''Generation failed''),
               h_processingTimeMs := Some (clock s - st)\<rparr>]"
  by (simp add: generationFailed_def Let_def)

lemma isCircuitBroken_frame [simp]:
  "queue (snd (isCircuitBroken s)) = queue s"
  "calls (snd (isCircuitBroken s)) = calls s"
  "generatorCalls (snd (isCircuitBroken s)) = generatorCalls s"
  "scanEvents (snd (isCircuitBroken s)) = scanEvents s"
  "historyEntries (snd (isCircuitBroken s)) = historyEntries s"
  "lastScanTime (snd (isCircuitBroken s)) = lastScanTime s"
  "orchestrator (snd (isCircuitBroken s)) = orchestrator s"
  "clock (snd (isCircuitBroken s)) = clock s"
  by (simp_all add: isCircuitBroken_def generatorCalls_def scanEvents_def historyEntries_def
        effect_defs split: option.split)

lemma isCircuitBroken_closed:
  "\<not> fst (isCircuitBroken s) \<Longrightarrow>
     consecutiveFailures (snd (isCircuitBroken s))
       = (if circuitBrokenUntil s = None then consecutiveFailures s else 0)
     \<and> circuitBrokenUntil (snd (isCircuitBroken s)) = None"
  by (simp add: isCircuitBroken_def split: option.splits if_splits)

lemma isCircuitBroken_open:
  "fst (isCircuitBroken s) \<Longrightarrow> snd (isCircuitBroken s) = s"
  by (simp add: isCircuitBroken_def split: option.splits if_splits)

lemma isCircuitBroken_iff:
  "fst (isCircuitBroken s) \<longleftrightarrow> (\<exists>t. circuitBrokenUntil s = Some t \<and> clock s < t)"
  by (auto simp add: isCircuitBroken_def split: option.splits if_splits)

lemma passes_content_aux:
  "(cont \<noteq> None \<or> p < m)
     \<longrightarrow> (\<forall>c q' p'. fst (generationPasses w k m cont q p s) = Inr (c, q', p') \<longrightarrow> c \<noteq> None)"
proof (induction w k m cont q p s rule: generationPasses.induct)
  case (1 w keyword maxPasses cont qualityScore passCount s)
  show ?case
    apply (subst generationPasses.simps)
    apply (simp add: Let_def split: generate_outcome.split)
    using 1 by (auto simp: Let_def)
qed

lemma passes_content:
  "p < m \<Longrightarrow> fst (generationPasses w k m cont q p s) = Inr (c, q', p') \<Longrightarrow> c \<noteq> None"
  using passes_content_aux [of cont p m w k q s] by blast

lemmas generationPasses_fields = core_fields [OF core_generationPasses]

lemma generationAttempt_frame:
  "scanEvents (snd (generationAttempt w opts item st pri s)) = scanEvents s
   \<and> queue (snd (generationAttempt w opts item st pri s)) = queue s
   \<and> lastScanTime (snd (generationAttempt w opts item st pri s)) = lastScanTime s"
proof (cases "orchestrator s")
  case False
  then show ?thesis by (simp add: generationAttempt_def)
next
  case True
  define m where "m = (if pri then MAX_QUALITY_IMPROVEMENT_PASSES else 1)"
  define s1 where "s1 = log info ''Starting content generation'' s"
  obtain r s2 where r: "generationPasses w (extractKeyword w (url item)) m None 0 0 s1 = (r, s2)"
    by (cases "generationPasses w (extractKeyword w (url item)) m None 0 0 s1")
  have s1: "scanEvents s1 = scanEvents s" "queue s1 = queue s" "lastScanTime s1 = lastScanTime s"
    by (simp_all add: s1_def)
  have s2: "scanEvents s2 = scanEvents s" "queue s2 = queue s" "lastScanTime s2 = lastScanTime s"
    using scanEvents_generationPasses [of w "extractKeyword w (url item)" m None 0 0 s1]
      generationPasses_fields(1,4) [of w "extractKeyword w (url item)" m None 0 0 s1] r s1
    by simp_all
  show ?thesis
  proof (cases r)
    case (Inl e)
    with True r s2 show ?thesis
      by (simp add: generationAttempt_def Let_def m_def [symmetric] s1_def [symmetric])
  next
    case (Inr res)
    obtain c q p where res: "res = (c, q, p)" by (cases res)
    from True r s2 Inr res afterPasses_frame [of w opts item st c q p s2] show ?thesis
      by (simp add: generationAttempt_def Let_def m_def [symmetric] s1_def [symmetric])
  qed
qed

lemma generationAttempt_outcome:
  "(fst (generationAttempt w opts item st pri s) = Inr u
      \<longrightarrow> consecutiveFailures (snd (generationAttempt w opts item st pri s)) = 0
          \<and> circuitBrokenUntil (snd (generationAttempt w opts item st pri s)) = circuitBrokenUntil s)
   \<and> (fst (generationAttempt w opts item st pri s) = Inl e
      \<longrightarrow> core (snd (generationAttempt w opts item st pri s)) = core s
          \<and> historyEntries (snd (generationAttempt w opts item st pri s)) = historyEntries s)"
proof (cases "orchestrator s")
  case False
  then show ?thesis by (simp add: generationAttempt_def)
next
  case True
  define m where "m = (if pri then MAX_QUALITY_IMPROVEMENT_PASSES else 1)"
  define s1 where "s1 = log info ''Starting content generation'' s"
  have m: "0 < m" by (simp add: m_def MAX_QUALITY_IMPROVEMENT_PASSES_def)
  obtain r s2 where r: "generationPasses w (extractKeyword w (url item)) m None 0 0 s1 = (r, s2)"
    by (cases "generationPasses w (extractKeyword w (url item)) m None 0 0 s1")
  have s1: "core s1 = core s" "historyEntries s1 = historyEntries s"
    "circuitBrokenUntil s1 = circuitBrokenUntil s"
    by (simp_all add: s1_def)
  have s2: "core s2 = core s" "historyEntries s2 = historyEntries s"
    "circuitBrokenUntil s2 = circuitBrokenUntil s"
    using core_generationPasses [of w "extractKeyword w (url item)" m None 0 0 s1]
      history_generationPasses [of w "extractKeyword w (url item)" m None 0 0 s1]
      generationPasses_fields(3) [of w "extractKeyword w (url item)" m None 0 0 s1] r s1
    by simp_all
  show ?thesis
  proof (cases r)
    case (Inl e)
    with True r s2 show ?thesis
      by (simp add: generationAttempt_def Let_def m_def [symmetric] s1_def [symmetric])
  next
    case (Inr res)
    obtain c q p where res: "res = (c, q, p)" by (cases res)
    have "c \<noteq> None"
      using passes_content [OF m, of w "extractKeyword w (url item)" None 0 s1 c q p] r Inr res
      by simp
    then have "\<And>e. fst (afterPasses w opts item st c q p s2) \<noteq> Inl e"
      using afterPasses_throws [of w opts item st c q p s2] by blast
    with True r s2 Inr res afterPasses_frame [of w opts item st c q p s2] show ?thesis
      by (simp add: generationAttempt_def Let_def m_def [symmetric] s1_def [symmetric])
  qed
qed

lemma generationAttempt_generatorCalls:
  "orchestrator s \<Longrightarrow>
     generatorCalls (snd (generationAttempt w opts item st pri s))
       = generatorCalls (snd (generationPasses w (extractKeyword w (url item))
            (if pri then MAX_QUALITY_IMPROVEMENT_PASSES else 1) None 0 0
            (log info ''Starting content generation'' s)))"
proof -
  assume True: "orchestrator s"
  define m where "m = (if pri then MAX_QUALITY_IMPROVEMENT_PASSES else 1)"
  define s1 where "s1 = log info ''Starting content generation'' s"
  obtain r s2 where r: "generationPasses w (extractKeyword w (url item)) m None 0 0 s1 = (r, s2)"
    by (cases "generationPasses w (extractKeyword w (url item)) m None 0 0 s1")
  show ?thesis
  proof (cases r)
    case (Inl e)
    with True r show ?thesis
      by (simp add: generationAttempt_def Let_def m_def [symmetric] s1_def [symmetric])
  next
    case (Inr res)
    obtain c q p where res: "res = (c, q, p)" by (cases res)
    from True r Inr res afterPasses_frame [of w opts item st c q p s2] show ?thesis
      by (simp add: generationAttempt_def Let_def m_def [symmetric] s1_def [symmetric])
  qed
qed

text \<open>The phase on an open and on a closed circuit.\<close>

lemma runGenerationPhase_blocked:
  "fst (isCircuitBroken s) \<Longrightarrow>
     runGenerationPhase w opts s = sleep w 60000 (log warning ''Circuit breaker active'' s)"
  using isCircuitBroken_open [of s]
  by (cases "isCircuitBroken s") (simp add: runGenerationPhase_def)

lemma runGenerationPhase_empty:
  "\<not> fst (isCircuitBroken s) \<Longrightarrow> queue s = [] \<Longrightarrow>
     runGenerationPhase w opts s = snd (isCircuitBroken s)"
  using isCircuitBroken_frame(1) [of s]
  by (cases "isCircuitBroken s") (simp add: runGenerationPhase_def)

lemma runGenerationPhase_item:
  "\<not> fst (isCircuitBroken s) \<Longrightarrow> queue s = item # rest \<Longrightarrow>
     runGenerationPhase w opts s =
       (let s4 = log info ''Generating content...''
                   (updateState [CurrentPhase (Some generating), CurrentUrl (Some (url item)),
                                 Queue rest]
                      ((snd (isCircuitBroken s))\<lparr>queue := rest\<rparr>));
            pri = (priorityOnlyMode opts \<or> source item = manual)
        in if isl (fst (generationAttempt w opts item (clock s) pri s4))
           then generationFailed w opts item (clock s)
                  (projl (fst (generationAttempt w opts item (clock s) pri s4)))
                  (snd (generationAttempt w opts item (clock s) pri s4))
           else snd (generationAttempt w opts item (clock s) pri s4))"
proof -
  assume a: "\<not> fst (isCircuitBroken s)" "queue s = item # rest"
  obtain b s1 where b: "isCircuitBroken s = (b, s1)" by (cases "isCircuitBroken s")
  with a isCircuitBroken_frame(1,8) [of s] have s1: "\<not> b" "queue s1 = item # rest" "clock s1 = clock s"
    by simp_all
  obtain r s5 where r: "generationAttempt w opts item (clock s)
      (priorityOnlyMode opts \<or> source item = manual)
      (log info ''Generating content...''
         (updateState [CurrentPhase (Some generating), CurrentUrl (Some (url item)), Queue rest]
            (s1\<lparr>queue := rest\<rparr>))) = (r, s5)"
    by (cases "generationAttempt w opts item (clock s)
      (priorityOnlyMode opts \<or> source item = manual)
      (log info ''Generating content...''
         (updateState [CurrentPhase (Some generating), CurrentUrl (Some (url item)), Queue rest]
            (s1\<lparr>queue := rest\<rparr>)))")
  show ?thesis
    using b s1 r
    by (cases r) (simp_all add: runGenerationPhase_def Let_def)
qed

lemma runGenerationPhase_scan:
  "scanEvents (runGenerationPhase w opts s) = scanEvents s
   \<and> lastScanTime (runGenerationPhase w opts s) = lastScanTime s"
proof (cases "fst (isCircuitBroken s)")
  case True
  then show ?thesis by (simp add: runGenerationPhase_blocked)
next
  case False
  show ?thesis
  proof (cases "queue s")
    case Nil
    with False show ?thesis by (simp add: runGenerationPhase_empty)
  next
    case (Cons item rest)
    define s4 where "s4 = log info ''Generating content...''
                   (updateState [CurrentPhase (Some generating), CurrentUrl (Some (url item)),
                                 Queue rest]
                      ((snd (isCircuitBroken s))\<lparr>queue := rest\<rparr>))"
    have s4: "scanEvents s4 = scanEvents s" "lastScanTime s4 = lastScanTime s"
      by (simp_all add: s4_def)
    show ?thesis
      using generationAttempt_frame [of w opts item "clock s"
              "priorityOnlyMode opts \<or> source item = manual" s4] s4
      by (simp add: runGenerationPhase_item [OF False Cons] Let_def s4_def [symmetric]
            generationFailed_frame)
  qed
qed

lemma runGenerationPhase_queue:
  "queue (runGenerationPhase w opts s) = queue s
   \<or> (\<exists>item rest. queue s = item # rest
        \<and> (queue (runGenerationPhase w opts s) = rest
            \<or> (retryCount item < retryAttempts (config opts)
                \<and> (\<exists>m. queue (runGenerationPhase w opts s)
                      = sortQueue (rest @ [item\<lparr>retryCount := retryCount item + 1,
                                                 lastError := Some m\<rparr>])))))"
proof (cases "fst (isCircuitBroken s)")
  case True
  then show ?thesis by (simp add: runGenerationPhase_blocked)
next
  case False
  show ?thesis
  proof (cases "queue s")
    case Nil
    with False show ?thesis by (simp add: runGenerationPhase_empty)
  next
    case (Cons item rest)
    define s4 where "s4 = log info ''Generating content...''
                   (updateState [CurrentPhase (Some generating), CurrentUrl (Some (url item)),
                                 Queue rest]
                      ((snd (isCircuitBroken s))\<lparr>queue := rest\<rparr>))"
    define att where "att = generationAttempt w opts item (clock s)
              (priorityOnlyMode opts \<or> source item = manual) s4"
    have s4: "queue s4 = rest"
      by (simp add: s4_def)
    have q5: "queue (snd att) = rest"
      using generationAttempt_frame [of w opts item "clock s"
              "priorityOnlyMode opts \<or> source item = manual" s4] s4
      by (simp add: att_def)
    have run: "runGenerationPhase w opts s =
        (if isl (fst att) then generationFailed w opts item (clock s) (projl (fst att)) (snd att)
         else snd att)"
      by (simp add: runGenerationPhase_item [OF False Cons] Let_def s4_def [symmetric]
            att_def [symmetric])
    show ?thesis
    proof (cases "isl (fst att)")
      case ok: False
      then show ?thesis by (simp add: run q5 Cons)
    next
      case failed: True
      show ?thesis
      proof (cases "retryCount item < retryAttempts (config opts)")
        case True
        then have "queue (runGenerationPhase w opts s)
            = sortQueue (rest @ [item\<lparr>retryCount := retryCount item + 1,
                 lastError := Some (messageOf (projl (fst att)) ''Generation failed'')\<rparr>])"
          using generationFailed_retry [of item opts w "clock s" "projl (fst att)" "snd att"]
          by (simp add: run failed q5)
        with True Cons show ?thesis by blast
      next
        case False
        then show ?thesis
          using generationFailed_exhausted [of item opts w "clock s" "projl (fst att)" "snd att"]
          by (simp add: run failed q5 Cons)
      qed
    qed
  qed
qed

lemma runGenerationPhase_distinct:
  "distinct (map url (queue s)) \<Longrightarrow> distinct (map url (queue (runGenerationPhase w opts s)))"
  using runGenerationPhase_queue [of w opts s]
  by (auto simp: distinct_urls_sortQueue)

lemma list_all_sortQueue: "list_all P (sortQueue q) = list_all P q"
  by (simp add: list_all_iff set_sortQueue)

lemma runGenerationPhase_retries:
  "list_all (\<lambda>q. retryCount q \<le> retryAttempts (config opts)) (queue s)
     \<Longrightarrow> list_all (\<lambda>q. retryCount q \<le> retryAttempts (config opts))
           (queue (runGenerationPhase w opts s))"
  using runGenerationPhase_queue [of w opts s]
  by (auto simp: list_all_sortQueue)

subsection \<open>Scanning, scoring and the main loop\<close>

lemma logAll_frame [simp]:
  "queue (logAll t ms s) = queue s"
  "scanEvents (logAll info [''==='', ''PRIORITY ONLY MODE - ENTERPRISE INITIALIZATION'', ''==='',
                  ''Pre-flight Checks'', ''Total Priority URLs'', ''NeuronWriter'',
                  ''Quality Threshold'', ''Multi-pass Quality'', ''Retry Attempts''] s) = scanEvents s"
  "scanEvents (logAll info [[], ''Queue Summary'', ''Critical'', ''High'', ''Medium'', ''Low'',
                  ''Excluded'', ''Estimated Time'', ''===''] s) = scanEvents s"
  "lastScanTime (logAll t ms s) = lastScanTime s"
proof -
  show "queue (logAll t ms s) = queue s" unfolding logAll_def
    by (induction ms arbitrary: s) simp_all
  show "lastScanTime (logAll t ms s) = lastScanTime s" unfolding logAll_def
    by (induction ms arbitrary: s) simp_all
qed (simp_all add: logAll_def)

lemma runScanPhase_queue [simp]: "queue (runScanPhase opts s) = queue s"
  by (simp add: runScanPhase_def Let_def)

lemma stop_frame [simp]:
  "queue (stop s) = queue s" "scanEvents (stop s) = scanEvents s"
  "lastScanTime (stop s) = lastScanTime s"
  by (simp_all add: core_fields [OF controls_frame(1)])

lemma runScoringPhase_distinct:
  "distinct (map url (queue s)) \<Longrightarrow> distinct (map url (queue (runScoringPhase w opts s)))"
  by (simp add: runScoringPhase_def Let_def distinct_urls_sortQueue distinct_scoreUrls)

lemma runScoringPhase_retries:
  "list_all (\<lambda>q. retryCount q \<le> m) (queue s)
     \<Longrightarrow> list_all (\<lambda>q. retryCount q \<le> m) (queue (runScoringPhase w opts s))"
  by (simp add: runScoringPhase_def Let_def list_all_sortQueue retries_scoreUrls)

lemma initializePriorityQueue_distinct:
  "distinct (map url (queue (initializePriorityQueue w opts s)))"
  by (simp add: initializePriorityQueue_def Let_def distinct_urls_sortQueue
        distinct_enqueuePriorityUrls)

lemma initializePriorityQueue_retries:
  "list_all (\<lambda>q. retryCount q \<le> m) (queue (initializePriorityQueue w opts s))"
  by (simp add: initializePriorityQueue_def Let_def list_all_sortQueue
        retries_enqueuePriorityUrls)

lemma scanEvents_enqueuePriorityUrls [simp]:
  "scanEvents (enqueuePriorityUrls w opts ps s) = scanEvents s"
  by (induction ps arbitrary: s) (simp_all add: enqueuePriorityUrl_def)

lemma lastScanTime_enqueuePriorityUrls [simp]:
  "lastScanTime (enqueuePriorityUrls w opts ps s) = lastScanTime s"
  by (induction ps arbitrary: s) (simp_all add: enqueuePriorityUrl_def)

lemma initializePriorityQueue_scan:
  "scanEvents (initializePriorityQueue w opts s) = scanEvents s
   \<and> lastScanTime (initializePriorityQueue w opts s) = lastScanTime s"
  by (simp add: initializePriorityQueue_def Let_def)

text \<open>The bound on retry counts is kept by the body of the loop and by the loop.\<close>

lemma mainLoopBody_retries:
  "list_all (\<lambda>q. retryCount q \<le> retryAttempts (config opts)) (queue s)
     \<Longrightarrow> list_all (\<lambda>q. retryCount q \<le> retryAttempts (config opts))
           (queue (mainLoopBody w opts s))"
  by (simp add: mainLoopBody_def Let_def runGenerationPhase_retries runScoringPhase_retries)

lemma mainLoop_retries:
  "list_all (\<lambda>q. retryCount q \<le> retryAttempts (config opts)) (queue s)
     \<Longrightarrow> list_all (\<lambda>q. retryCount q \<le> retryAttempts (config opts))
           (queue (mainLoop n w opts s))"
  by (induction n arbitrary: s) (simp_all add: mainLoopBody_retries)

lemma mainLoopBody_scan:
  "priorityOnlyMode opts \<Longrightarrow>
     scanEvents (mainLoopBody w opts s) = scanEvents s
     \<and> lastScanTime (mainLoopBody w opts s) = lastScanTime s"
  by (simp add: mainLoopBody_def Let_def runGenerationPhase_scan)

lemma mainLoop_scan:
  "priorityOnlyMode opts \<Longrightarrow>
     scanEvents (mainLoop n w opts s) = scanEvents s
     \<and> lastScanTime (mainLoop n w opts s) = lastScanTime s"
  by (induction n arbitrary: s) (simp_all add: mainLoopBody_scan)

subsection \<open>When a generation attempt fails\<close>

lemma passes_fail_iff_aux:
  "m - p = d \<Longrightarrow>
     isl (fst (generationPasses w k m cont q p s)) \<longleftrightarrow> passesThrow w k (calls s) d"
proof (induction d arbitrary: p s cont q)
  case 0
  then show ?case by (simp add: pass_done)
next
  case (Suc d)
  then have pm: "p < m" by simp
  show ?case
  proof (cases "passQuality w k (calls s)")
    case None
    then show ?thesis using pass_throws [OF pm None, of cont q] by auto
  next
    case (Some v)
    show ?thesis
    proof (cases "MIN_QUALITY_SCORE \<le> v")
      case True
      then show ?thesis using pass_reaches_target [OF pm Some True, of cont q] Some by auto
    next
      case below: False
      show ?thesis
      proof (cases "p + 1 < m")
        case True
        define s' where "s' = sleep w 2000
              (log info ''Quality below target, initiating improvement pass''
                 (log info ''Pass complete'' (called w (GenerateCall k) s)))"
        obtain c where step:
          "generationPasses w k m cont q p s = generationPasses w k m (Some c) v (p + 1) s'"
          using pass_below_more [OF True Some, of cont q] below by (auto simp: s'_def)
        have "isl (fst (generationPasses w k m (Some c) v (p + 1) s'))
                \<longleftrightarrow> passesThrow w k (calls s') d"
          using Suc.prems by (intro Suc.IH) simp
        moreover have "calls s' = Suc (calls s)" by (simp add: s'_def)
        ultimately show ?thesis using Some below by (simp add: step)
      next
        case False
        with Suc.prems have "d = 0" by simp
        then show ?thesis
          using pass_below_last [OF pm False Some, of cont q] below Some by auto
      qed
    qed
  qed
qed

lemma passes_fail_iff:
  "isl (fst (generationPasses w k m None 0 0 s)) \<longleftrightarrow> passesThrow w k (calls s) m"
  using passes_fail_iff_aux [of m 0 m w k None 0 s] by simp

lemma generationAttempt_fails_iff:
  "isl (fst (generationAttempt w opts item st (priorityOnlyMode opts \<or> source item = manual) s))
     \<longleftrightarrow> generationFails w opts item s"
proof (cases "orchestrator s")
  case False
  then show ?thesis by (simp add: generationAttempt_def generationFails_def)
next
  case True
  define pri where "pri = (priorityOnlyMode opts \<or> source item = manual)"
  define m where "m = (if pri then MAX_QUALITY_IMPROVEMENT_PASSES else 1)"
  define s1 where "s1 = log info ''Starting content generation'' s"
  have m: "0 < m" by (simp add: m_def MAX_QUALITY_IMPROVEMENT_PASSES_def)
  obtain r s2 where r: "generationPasses w (extractKeyword w (url item)) m None 0 0 s1 = (r, s2)"
    by (cases "generationPasses w (extractKeyword w (url item)) m None 0 0 s1")
  have fails: "isl r \<longleftrightarrow> passesThrow w (extractKeyword w (url item)) (calls s) m"
    using passes_fail_iff [of w "extractKeyword w (url item)" m s1] r by (simp add: s1_def)
  show ?thesis
  proof (cases r)
    case (Inl e)
    with True r fails show ?thesis
      by (simp add: generationAttempt_def generationFails_def Let_def pri_def [symmetric]
            m_def [symmetric] s1_def [symmetric])
  next
    case (Inr res)
    obtain c q p where res: "res = (c, q, p)" by (cases res)
    have "c \<noteq> None"
      using passes_content [OF m, of w "extractKeyword w (url item)" None 0 s1 c q p] r Inr res
      by simp
    then have "\<not> isl (fst (afterPasses w opts item st c q p s2))"
      using afterPasses_throws [of w opts item st c q p s2]
      by (cases "fst (afterPasses w opts item st c q p s2)") auto
    with True r fails Inr res show ?thesis
      by (simp add: generationAttempt_def generationFails_def Let_def pri_def [symmetric]
            m_def [symmetric] s1_def [symmetric])
  qed
qed

subsection \<open>The generation phase as a whole\<close>

lemma generationFails_cong:
  "orchestrator a = orchestrator b \<Longrightarrow> calls a = calls b \<Longrightarrow>
     generationFails w opts item a = generationFails w opts item b"
  by (simp add: generationFails_def)

lemma runGenerationPhase_failure:
  assumes closed: "\<not> fst (isCircuitBroken s)" and q: "queue s = item # rest"
    and fails: "generationFails w opts item s"
  shows "\<exists>e s5. runGenerationPhase w opts s = generationFailed w opts item (clock s) e s5
           \<and> queue s5 = rest \<and> historyEntries s5 = historyEntries s
           \<and> consecutiveFailures s5 = consecutiveFailures (snd (isCircuitBroken s))
           \<and> circuitBrokenUntil s5 = None \<and> generatorCalls s \<le> generatorCalls s5"
proof -
  define s4 where "s4 = log info ''Generating content...''
                   (updateState [CurrentPhase (Some generating), CurrentUrl (Some (url item)),
                                 Queue rest]
                      ((snd (isCircuitBroken s))\<lparr>queue := rest\<rparr>))"
  define att where "att = generationAttempt w opts item (clock s)
              (priorityOnlyMode opts \<or> source item = manual) s4"
  have s4: "queue s4 = rest" "historyEntries s4 = historyEntries s"
    "consecutiveFailures s4 = consecutiveFailures (snd (isCircuitBroken s))"
    "circuitBrokenUntil s4 = None" "orchestrator s4 = orchestrator s" "calls s4 = calls s"
    "generatorCalls s4 = generatorCalls s"
    using isCircuitBroken_closed [OF closed] by (simp_all add: s4_def)
  have "generationFails w opts item s4"
    using fails generationFails_cong [OF s4(5,6)] by simp
  then have failed: "isl (fst att)"
    by (simp add: att_def generationAttempt_fails_iff)
  then obtain e where e: "fst att = Inl e" by (cases "fst att") auto
  have core5: "core (snd att) = core s4" and h5: "historyEntries (snd att) = historyEntries s4"
    using generationAttempt_outcome [of w opts item "clock s"
            "priorityOnlyMode opts \<or> source item = manual" s4 _ e] e
    by (simp_all add: att_def)
  have g5: "generatorCalls s4 \<le> generatorCalls (snd att)"
  proof (cases "orchestrator s4")
    case True
    then show ?thesis
      using observers_mono_generationPasses
      by (simp add: att_def generationAttempt_generatorCalls) (metis generatorCalls_emit(2))
  next
    case False
    then show ?thesis by (simp add: att_def generationAttempt_def)
  qed
  have run: "runGenerationPhase w opts s = generationFailed w opts item (clock s) e (snd att)"
    using failed e
    by (simp add: runGenerationPhase_item [OF closed q] Let_def s4_def [symmetric]
          att_def [symmetric])
  show ?thesis
    using run core_fields(1,2,3) [OF core5] h5 s4 g5 by auto
qed

lemma runGenerationPhase_success:
  assumes closed: "\<not> fst (isCircuitBroken s)" and q: "queue s = item # rest"
    and ok: "\<not> generationFails w opts item s"
  shows "consecutiveFailures (runGenerationPhase w opts s) = 0
         \<and> circuitBrokenUntil (runGenerationPhase w opts s) = None
         \<and> queue (runGenerationPhase w opts s) = rest"
proof -
  define s4 where "s4 = log info ''Generating content...''
                   (updateState [CurrentPhase (Some generating), CurrentUrl (Some (url item)),
                                 Queue rest]
                      ((snd (isCircuitBroken s))\<lparr>queue := rest\<rparr>))"
  define att where "att = generationAttempt w opts item (clock s)
              (priorityOnlyMode opts \<or> source item = manual) s4"
  have s4: "queue s4 = rest" "circuitBrokenUntil s4 = None"
    "orchestrator s4 = orchestrator s" "calls s4 = calls s"
    using isCircuitBroken_closed [OF closed] by (simp_all add: s4_def)
  have "\<not> generationFails w opts item s4"
    using ok generationFails_cong [OF s4(3,4)] by simp
  then have fine: "\<not> isl (fst att)"
    by (simp add: att_def generationAttempt_fails_iff)
  then obtain u where u: "fst att = Inr u" by (cases "fst att") auto
  have "consecutiveFailures (snd att) = 0" "circuitBrokenUntil (snd att) = None"
    using generationAttempt_outcome [of w opts item "clock s"
            "priorityOnlyMode opts \<or> source item = manual" s4 u] u s4
    by (simp_all add: att_def)
  moreover have "queue (snd att) = rest"
    using generationAttempt_frame [of w opts item "clock s"
            "priorityOnlyMode opts \<or> source item = manual" s4] s4
    by (simp add: att_def)
  moreover have "runGenerationPhase w opts s = snd att"
    using fine
    by (simp add: runGenerationPhase_item [OF closed q] Let_def s4_def [symmetric]
          att_def [symmetric])
  ultimately show ?thesis by simp
qed

lemma runGenerationPhase_generatorCalls:
  assumes closed: "\<not> fst (isCircuitBroken s)" and q: "queue s = item # rest"
    and orch: "orchestrator s"
  shows "\<exists>s1. calls s1 = calls s \<and> generatorCalls s1 = generatorCalls s
           \<and> generatorCalls (runGenerationPhase w opts s)
               = generatorCalls (snd (generationPasses w (extractKeyword w (url item))
                   (if priorityOnlyMode opts \<or> source item = manual
                    then MAX_QUALITY_IMPROVEMENT_PASSES else 1) None 0 0 s1))"
proof -
  define s4 where "s4 = log info ''Generating content...''
                   (updateState [CurrentPhase (Some generating), CurrentUrl (Some (url item)),
                                 Queue rest]
                      ((snd (isCircuitBroken s))\<lparr>queue := rest\<rparr>))"
  define att where "att = generationAttempt w opts item (clock s)
              (priorityOnlyMode opts \<or> source item = manual) s4"
  define s1 where "s1 = log info ''Starting content generation'' s4"
  have s4: "orchestrator s4" "calls s1 = calls s" "generatorCalls s1 = generatorCalls s"
    using orch by (simp_all add: s4_def s1_def)
  have "generatorCalls (runGenerationPhase w opts s) = generatorCalls (snd att)"
    by (simp add: runGenerationPhase_item [OF closed q] Let_def s4_def [symmetric]
          att_def [symmetric] generationFailed_frame)
  also have "\<dots> = generatorCalls (snd (generationPasses w (extractKeyword w (url item))
                   (if priorityOnlyMode opts \<or> source item = manual
                    then MAX_QUALITY_IMPROVEMENT_PASSES else 1) None 0 0 s1))"
    using generationAttempt_generatorCalls [OF s4(1), of w opts item "clock s"
            "priorityOnlyMode opts \<or> source item = manual"]
    by (simp add: att_def s1_def)
  finally show ?thesis using s4 by blast
qed

subsection \<open>The example data\<close>

lemma exWorld_passQuality:
  "passQuality (exWorld (exScores qs) pub sc) kw n = (if n < length qs then Some (qs ! n) else None)"
  by (simp add: passQuality_def exWorld_def exScores_def exContent_def)

lemma exRunning_ready:
  "\<not> fst (isCircuitBroken (exRunning q))" "queue (exRunning q) = q" "orchestrator (exRunning q)"
  "calls (exRunning q) = 0" "generatorCalls (exRunning q) = 0" "historyEntries (exRunning q) = []"
  "pauses (exRunning q) = 0"
  by (simp_all add: exRunning_def newEngine_def isCircuitBroken_def generatorCalls_def
        historyEntries_def pauses_def)

section \<open>Rounding to doubles\<close>

lemma floor_numeral_div: "\<lfloor>(numeral a :: rat) / numeral b\<rfloor> = numeral a div numeral b"
  using floor_divide_of_int_eq [of "numeral a" "numeral b", where ?'a = rat] by simp

lemma ceiling_numeral_div: "\<lceil>(numeral a :: rat) / numeral b\<rceil> = - ((- numeral a) div numeral b)"
  using ceiling_divide_eq_div [of "numeral a" "numeral b"] by simp

lemmas double_eval = roundDouble_def binade_def roundHalfEven_def pow2_def Let_def compute_floorlog
  floor_numeral_div ceiling_numeral_div


lemma pow2_pos: "0 < pow2 k"
  by (simp add: pow2_def)

lemma pow2_Suc: "pow2 (k + 1) = 2 * pow2 k"
proof (cases "0 \<le> k")
  case True
  then show ?thesis by (simp add: pow2_def nat_add_distrib)
next
  case False
  then have "nat (- k) = Suc (nat (- (k + 1)))" by simp
  then show ?thesis using False by (simp add: pow2_def)
qed

lemma binade_bounds:
  assumes "0 < a"
  shows "pow2 (binade a) \<le> a \<and> a < pow2 (binade a + 1)"
proof (cases "1 \<le> a")
  case True
  define n where "n = nat \<lfloor>a\<rfloor>"
  have n: "0 < n" using True by (simp add: n_def)
  have na: "rat_of_nat n \<le> a" "a < rat_of_nat n + 1"
    using True by (simp_all add: n_def) linarith+
  from floorlog_bounds [of n 2] n
  have b: "2 ^ (floorlog 2 n - 1) \<le> n" "n < 2 ^ floorlog 2 n" by simp_all
  have "floorlog 2 n \<noteq> 0" using n by (simp add: floorlog_eq_zero_iff)
  then have f: "0 < floorlog 2 n" by simp
  have k: "binade a = int (floorlog 2 n) - 1" using True by (simp add: binade_def n_def)
  have "pow2 (binade a) = 2 ^ (floorlog 2 n - 1)"
    using f by (simp add: k pow2_def nat_diff_distrib')
  also have "\<dots> \<le> rat_of_nat n" using of_nat_mono [OF b(1), where ?'a = rat] by simp
  finally have lo: "pow2 (binade a) \<le> a" using na(1) by simp
  have "Suc n \<le> 2 ^ floorlog 2 n" using b(2) by simp
  from of_nat_mono [OF this, where ?'a = rat]
  have "rat_of_nat n + 1 \<le> 2 ^ floorlog 2 n" by simp
  moreover have "pow2 (binade a + 1) = 2 ^ floorlog 2 n" by (simp add: k pow2_def)
  ultimately have "a < pow2 (binade a + 1)" using na(2) by simp
  with lo show ?thesis by simp
next
  case False
  then have a1: "a < 1" by simp
  define N where "N = \<lceil>1 / a\<rceil>"
  define n where "n = nat (N - 1)"
  have inv: "1 < 1 / a" using assms a1 by simp
  have N2: "2 \<le> N" using inv unfolding N_def by linarith
  have n: "0 < n" "int n = N - 1" using N2 by (simp_all add: n_def)
  have Na: "1 / a \<le> rat_of_int N" "rat_of_int N - 1 < 1 / a"
    unfolding N_def by linarith+
  from floorlog_bounds [of n 2] n
  have b: "2 ^ (floorlog 2 n - 1) \<le> n" "n < 2 ^ floorlog 2 n" by simp_all
  have "floorlog 2 n \<noteq> 0" using n by (simp add: floorlog_eq_zero_iff)
  then have f: "0 < floorlog 2 n" by simp
  have k: "binade a = - int (floorlog 2 n)" using False by (simp add: binade_def n_def N_def)
  have "rat_of_int (int n) = rat_of_int (N - 1)" by (simp only: n(2))
  then have rn: "rat_of_nat n = rat_of_int N - 1" by simp
  have "Suc n \<le> 2 ^ floorlog 2 n" using b(2) by simp
  from of_nat_mono [OF this, where ?'a = rat]
  have "rat_of_nat n + 1 \<le> 2 ^ floorlog 2 n" by simp
  then have "1 / a \<le> 2 ^ floorlog 2 n" using Na(1) rn by linarith
  then have "1 \<le> 2 ^ floorlog 2 n * a" using assms by (simp add: field_simps)
  then have lo: "pow2 (binade a) \<le> a"
    using f by (simp add: k pow2_def field_simps)
  have "(2::rat) ^ (floorlog 2 n - 1) \<le> rat_of_nat n"
    using of_nat_mono [OF b(1), where ?'a = rat] by simp
  then have "2 ^ (floorlog 2 n - 1) < 1 / a" using Na(2) rn by linarith
  then have "a < 1 / 2 ^ (floorlog 2 n - 1)" using assms by (simp add: field_simps)
  moreover have "pow2 (binade a + 1) = 1 / 2 ^ (floorlog 2 n - 1)"
  proof (cases "floorlog 2 n = 1")
    case True
    then show ?thesis by (simp add: k pow2_def)
  next
    case False
    with f have "1 < floorlog 2 n" by simp
    then show ?thesis by (simp add: k pow2_def nat_diff_distrib')
  qed
  ultimately have "a < pow2 (binade a + 1)" by (simp only:)
  with lo show ?thesis by simp
qed

lemma roundHalfEven_error: "\<bar>rat_of_int (roundHalfEven y) - y\<bar> \<le> 1 / 2"
proof -
  define r where "r = y - rat_of_int \<lfloor>y\<rfloor>"
  have r: "0 \<le> r" "r < 1" unfolding r_def by linarith+
  have y: "y = rat_of_int \<lfloor>y\<rfloor> + r" by (simp add: r_def)
  have "roundHalfEven y = \<lfloor>y\<rfloor> \<and> r \<le> 1 / 2 \<or> roundHalfEven y = \<lfloor>y\<rfloor> + 1 \<and> 1 / 2 \<le> r"
    unfolding roundHalfEven_def Let_def r_def [symmetric] by auto
  then show ?thesis
  proof
    assume "roundHalfEven y = \<lfloor>y\<rfloor> \<and> r \<le> 1 / 2"
    then have "rat_of_int (roundHalfEven y) - y = - r" "r \<le> 1 / 2" using y by simp_all
    then show ?thesis using r by simp
  next
    assume "roundHalfEven y = \<lfloor>y\<rfloor> + 1 \<and> 1 / 2 \<le> r"
    then have "rat_of_int (roundHalfEven y) - y = 1 - r" "1 / 2 \<le> r" using y by simp_all
    then show ?thesis using r by simp
  qed
qed

lemma roundDouble_error: "\<bar>roundDouble x - x\<bar> \<le> \<bar>x\<bar> / 2 ^ 53"
proof (cases "x = 0")
  case True
  then show ?thesis by (simp add: roundDouble_def)
next
  case False
  define a where "a = \<bar>x\<bar>"
  define e where "e = binade a - 52"
  define y where "y = a / pow2 e"
  define m where "m = roundHalfEven y"
  have a: "0 < a" using False by (simp add: a_def)
  have p: "0 < pow2 e" by (rule pow2_pos)
  have r: "roundDouble x = sgn x * rat_of_int m * pow2 e"
    using False by (simp add: roundDouble_def Let_def m_def y_def e_def a_def)
  have x: "x = sgn x * y * pow2 e"
    using p by (simp add: y_def a_def mult_sgn_abs)
  have "roundDouble x - x = sgn x * (rat_of_int m - y) * pow2 e"
    by (subst r, subst (2) x) (simp add: algebra_simps)
  then have "\<bar>roundDouble x - x\<bar> = \<bar>rat_of_int m - y\<bar> * pow2 e"
    using False p by (simp add: abs_mult abs_sgn_eq)
  also have "\<dots> \<le> (1 / 2) * pow2 e"
    using roundHalfEven_error [of y] p unfolding m_def by (intro mult_right_mono) simp_all
  finally have A: "\<bar>roundDouble x - x\<bar> \<le> pow2 e / 2" by simp
  have "pow2 (e + 52) \<le> a" using binade_bounds [OF a] by (simp add: e_def)
  moreover have "pow2 (e + 52) = 2 ^ 52 * pow2 e"
  proof -
    have "pow2 (e + int k) = 2 ^ k * pow2 e" for k
    proof (induction k)
      case 0
      then show ?case by simp
    next
      case (Suc k)
      have "e + int (Suc k) = (e + int k) + 1" by simp
      then have "pow2 (e + int (Suc k)) = 2 * pow2 (e + int k)" by (simp only: pow2_Suc)
      then show ?case using Suc by simp
    qed
    from this [of 52] show ?thesis by simp
  qed
  ultimately have "pow2 e \<le> a / 2 ^ 52" by (simp add: field_simps)
  then have "pow2 e / 2 \<le> a / 2 ^ 53" by simp
  with A show ?thesis unfolding a_def by linarith
qed


lemma roundDouble_abs_le: "\<bar>roundDouble x\<bar> \<le> \<bar>x\<bar> * (1 + 1 / 2 ^ 53)"
proof -
  have "\<bar>roundDouble x\<bar> \<le> \<bar>x\<bar> + \<bar>roundDouble x - x\<bar>" by linarith
  also have "\<dots> \<le> \<bar>x\<bar> + \<bar>x\<bar> / 2 ^ 53" using roundDouble_error [of x] by linarith
  finally show ?thesis by (simp add: algebra_simps)
qed

lemma roundDouble_two_tenths: "roundDouble (2 / 10) = 3602879701896397 / 2 ^ 54"
  by (simp add: double_eval)

section \<open>Queue order\<close>

lemma sorted_sites:
  "sorted_wrt mayPrecede (queue (initializePriorityQueue w opts s))"
  "filter (\<lambda>u. \<not> isExcluded w opts u)
     (if priorityOnlyMode opts then map fst (priorityUrls opts) else sitemapUrls opts) \<noteq> []
     \<Longrightarrow> sorted_wrt mayPrecede (queue (runScoringPhase w opts s))"
  "retryCount item < retryAttempts (config opts)
     \<Longrightarrow> sorted_wrt mayPrecede (queue (generationFailed w opts item st e s))"
  by (simp_all add: initializePriorityQueue_def runScoringPhase_def Let_def sorted_sortQueue
        generationFailed_retry)

text \<open>
  Claim C2. In every queue state that the engine's sorting operation produces (a call of
  \<^verbatim>\<open>sortQueue\<close> itself, priority-queue initialisation, the Score phase once it has
  candidates to score, the requeue after a failed generation), the items stand in the
  order critical, high, medium, low, and items of equal priority stand in ascending order
  of health score. For positions \<open>i < j\<close> of such a queue: if the item at \<open>j\<close> is critical,
  so is the item at \<open>i\<close>; if the item at \<open>j\<close> is high, the item at \<open>i\<close> is critical or
  high; if the item at \<open>j\<close> is medium, the item at \<open>i\<close> is not low; and if both have the
  same priority, the health score at \<open>i\<close> is at most the one at \<open>j\<close>.
\<close>

theorem sorted_queue_priority_then_health:
  assumes "q' = sortQueue q
           \<or> q' = queue (initializePriorityQueue w opts s)
           \<or> (filter (\<lambda>u. \<not> isExcluded w opts u)
                 (if priorityOnlyMode opts then map fst (priorityUrls opts)
                  else sitemapUrls opts) \<noteq> []
               \<and> q' = queue (runScoringPhase w opts s))
           \<or> (retryCount item < retryAttempts (config opts)
               \<and> q' = queue (generationFailed w opts item st e s))"
    and "i < j" and "j < length q'"
  shows "(priority (q' ! j) = critical \<longrightarrow> priority (q' ! i) = critical)
         \<and> (priority (q' ! j) = high
              \<longrightarrow> priority (q' ! i) = critical \<or> priority (q' ! i) = high)
         \<and> (priority (q' ! j) = medium \<longrightarrow> priority (q' ! i) \<noteq> low)
         \<and> (priority (q' ! i) = priority (q' ! j)
              \<longrightarrow> healthScore (q' ! i) \<le> healthScore (q' ! j))"
proof -
  have "sorted_wrt mayPrecede q'"
    using assms(1) sorted_sortQueue [of q] sorted_sites(1) [of w opts s]
      sorted_sites(2) [of w opts s] sorted_sites(3) [of item opts w st e s]
    by auto
  then have "mayPrecede (q' ! i) (q' ! j)"
    using assms(2,3) by (simp add: sorted_wrt_iff_nth_less)
  then show ?thesis
    by (cases "priority (q' ! i)"; cases "priority (q' ! j)")
       (simp_all add: mayPrecede_def compareItems_def)
qed

theorem sorted_queue_priority_then_health_witness:
  "(1::nat) < 2
   \<and> 2 < length (sortQueue [exItem ''E'' low 1 0, exItem ''B'' high 80 0,
                             exItem ''D'' medium 3 0, exItem ''C'' high 5 0,
                             exItem ''A'' critical 10 0])
   \<and> map url (sortQueue [exItem ''E'' low 1 0, exItem ''B'' high 80 0,
                          exItem ''D'' medium 3 0, exItem ''C'' high 5 0,
                          exItem ''A'' critical 10 0])
       = [''A'', ''C'', ''B'', ''D'', ''E'']
   \<and> map priority (sortQueue [exItem ''E'' low 1 0, exItem ''B'' high 80 0,
                               exItem ''D'' medium 3 0, exItem ''C'' high 5 0,
                               exItem ''A'' critical 10 0])
       = [critical, high, high, medium, low]
   \<and> healthScore (sortQueue [exItem ''E'' low 1 0, exItem ''B'' high 80 0,
                              exItem ''D'' medium 3 0, exItem ''C'' high 5 0,
                              exItem ''A'' critical 10 0] ! 1)
       \<le> healthScore (sortQueue [exItem ''E'' low 1 0, exItem ''B'' high 80 0,
                                 exItem ''D'' medium 3 0, exItem ''C'' high 5 0,
                                 exItem ''A'' critical 10 0] ! 2)"
  using sorted_queue_priority_then_health
          [where q' = "sortQueue [exItem ''E'' low 1 0, exItem ''B'' high 80 0,
                                  exItem ''D'' medium 3 0, exItem ''C'' high 5 0,
                                  exItem ''A'' critical 10 0]"
             and q = "[exItem ''E'' low 1 0, exItem ''B'' high 80 0, exItem ''D'' medium 3 0,
                       exItem ''C'' high 5 0, exItem ''A'' critical 10 0]"
             and i = 1 and j = 2]
  by (simp add: sortQueue_def compareItems_def exItem_def)

section \<open>Starting the engine\<close>

text \<open>
  Claim C9. Calling \<^verbatim>\<open>start()\<close> on an engine that is not running, with priority-only mode
  requested and an empty priority list, throws the configuration error and leaves the
  state exactly as it was (in particular \<open>isRunning\<close> stays false); \<^verbatim>\<open>start()\<close> throws
  nothing when the priority list is non-empty or priority-only mode is off.
\<close>

theorem start_requires_priority_urls:
  "(\<not> isRunning s \<and> priorityOnlyMode opts \<and> priorityUrls opts = []
      \<longrightarrow> (\<exists>m. fst (start n w opts s) = Inl (Error_msg m))
          \<and> snd (start n w opts s) = s \<and> \<not> isRunning (snd (start n w opts s)))
   \<and> (priorityUrls opts \<noteq> [] \<or> \<not> priorityOnlyMode opts
      \<longrightarrow> fst (start n w opts s) = Inr ())"
  by (simp add: start_def Let_def)

theorem start_requires_priority_urls_witness:
  "\<not> isRunning (newEngine 0) \<and> priorityOnlyMode (exOptions True False [])
   \<and> priorityUrls (exOptions True False []) = []
   \<and> (\<exists>m. fst (start 5 (exWorld (\<lambda>n. GenerateThrows Other_thrown) (FetchThrows Other_thrown) 0)
                  (exOptions True False []) (newEngine 0)) = Inl (Error_msg m))
   \<and> snd (start 5 (exWorld (\<lambda>n. GenerateThrows Other_thrown) (FetchThrows Other_thrown) 0)
             (exOptions True False []) (newEngine 0)) = newEngine 0
   \<and> \<not> priorityOnlyMode (exOptions False False [])
   \<and> fst (start 0 (exWorld (\<lambda>n. GenerateThrows Other_thrown) (FetchThrows Other_thrown) 0)
             (exOptions False False []) (newEngine 0)) = Inr ()"
  using start_requires_priority_urls
          [of "newEngine 0" "exOptions True False []" 5
              "exWorld (\<lambda>n. GenerateThrows Other_thrown) (FetchThrows Other_thrown) 0"]
        start_requires_priority_urls
          [of "newEngine 0" "exOptions False False []" 0
              "exWorld (\<lambda>n. GenerateThrows Other_thrown) (FetchThrows Other_thrown) 0"]
  by (simp add: newEngine_def exOptions_def)

section \<open>Backoff\<close>

lemma backoff_delay_cases:
  "0 < min (rat_of_int EXPONENTIAL_BACKOFF_BASE_MS * 2 ^ rc) (rat_of_int EXPONENTIAL_BACKOFF_MAX_MS)"
  by (simp add: EXPONENTIAL_BACKOFF_BASE_MS_def EXPONENTIAL_BACKOFF_MAX_MS_def min_def)

text \<open>
  With \<^verbatim>\<open>Math.random()\<close> between 0 and 1, the jitter term
  \<^verbatim>\<open>delay * 0.2 * (Math.random() - 0.5)\<close> stays within a tenth of the delay, up to the
  rounding of the four operations: the result never leaves the interval from
  \<open>0.9 * delay - 1\<close> to \<open>1.1 * delay\<close> by more than a billionth of the delay.
\<close>

lemma calculateBackoffDelay_near_tenth:
  assumes "0 \<le> rnd" "rnd \<le> 1"
  shows "min (rat_of_int EXPONENTIAL_BACKOFF_BASE_MS * 2 ^ rc)
             (rat_of_int EXPONENTIAL_BACKOFF_MAX_MS) * (9 / 10 - 1 / 10 ^ 9) - 1
           < rat_of_int (calculateBackoffDelay rnd rc)
         \<and> rat_of_int (calculateBackoffDelay rnd rc)
           \<le> min (rat_of_int EXPONENTIAL_BACKOFF_BASE_MS * 2 ^ rc)
                 (rat_of_int EXPONENTIAL_BACKOFF_MAX_MS) * (11 / 10 + 1 / 10 ^ 9)"
proof -
  define D where
    "D = min (rat_of_int EXPONENTIAL_BACKOFF_BASE_MS * 2 ^ rc)
             (rat_of_int EXPONENTIAL_BACKOFF_MAX_MS)"
  define c :: rat where "c = 3602879701896397 / 2 ^ 54"
  define u :: rat where "u = 1 + 1 / 2 ^ 53"
  define t1 where "t1 = roundDouble (D * c)"
  define t2 where "t2 = roundDouble (rnd - 5 / 10)"
  define j where "j = roundDouble (t1 * t2)"
  define r where "r = roundDouble (D + j)"
  have D: "0 < D" unfolding D_def by (rule backoff_delay_cases)
  have c': "roundDouble (2 / 10) = c" unfolding c_def by (rule roundDouble_two_tenths)
  have eq: "calculateBackoffDelay rnd rc = \<lfloor>r\<rfloor>"
    by (simp only: calculateBackoffDelay_def Let_def r_def j_def t1_def t2_def D_def c')
  have u: "0 < u" by (simp add: u_def)
  have c: "0 < c" by (simp add: c_def)
  have "\<bar>t1\<bar> \<le> \<bar>D * c\<bar> * u"
    unfolding t1_def u_def by (rule roundDouble_abs_le)
  then have t1: "\<bar>t1\<bar> \<le> D * c * u" using D c by (simp add: abs_mult)
  have "\<bar>rnd - 5 / 10\<bar> \<le> 1 / 2" using assms by linarith
  then have "\<bar>rnd - 5 / 10\<bar> * u \<le> (1 / 2) * u" using u by (intro mult_right_mono) simp_all
  moreover have "\<bar>t2\<bar> \<le> \<bar>rnd - 5 / 10\<bar> * u"
    unfolding t2_def u_def by (rule roundDouble_abs_le)
  ultimately have t2: "\<bar>t2\<bar> \<le> (1 / 2) * u" by linarith
  have "\<bar>t1 * t2\<bar> = \<bar>t1\<bar> * \<bar>t2\<bar>" by (simp add: abs_mult)
  also have "\<dots> \<le> (D * c * u) * ((1 / 2) * u)"
    using t1 t2 D c u by (intro mult_mono) simp_all
  finally have "\<bar>t1 * t2\<bar> * u \<le> (D * c * u) * ((1 / 2) * u) * u"
    using u by (intro mult_right_mono) simp_all
  moreover have "\<bar>j\<bar> \<le> \<bar>t1 * t2\<bar> * u"
    unfolding j_def u_def by (rule roundDouble_abs_le)
  ultimately have "\<bar>j\<bar> \<le> D * (c * (1 / 2) * u * u * u)" by (simp add: algebra_simps)
  moreover have "c * (1 / 2) * u * u * u \<le> 1 / 10 + 1 / 10 ^ 12"
    by (simp add: c_def u_def)
  then have "D * (c * (1 / 2) * u * u * u) \<le> D * (1 / 10 + 1 / 10 ^ 12)"
    using D by (intro mult_left_mono) simp_all
  ultimately have j: "\<bar>j\<bar> \<le> D * (1 / 10 + 1 / 10 ^ 12)" by linarith
  have lo: "D * (9 / 10 - 1 / 10 ^ 12) \<le> D + j" and hi: "D + j \<le> D * (11 / 10 + 1 / 10 ^ 12)"
    using j by (simp_all add: algebra_simps abs_le_iff)
  have pos: "0 < D + j"
  proof -
    have "0 < D * (9 / 10 - 1 / 10 ^ 12)" using D by simp
    with lo show ?thesis by linarith
  qed
  define w :: rat where "w = 1 / 2 ^ 53"
  define v where "v = (D + j) * w"
  have uw: "u = 1 + w" by (simp add: u_def w_def)
  have err: "\<bar>r - (D + j)\<bar> \<le> v"
    using roundDouble_error [of "D + j"] pos unfolding r_def v_def w_def by simp
  have uv: "(D + j) * u = (D + j) + v" "(D + j) * (1 - w) = (D + j) - v"
    unfolding uw v_def by (simp_all add: algebra_simps)
  have "r \<le> (D + j) * u" using err uv(1) by linarith
  also have "\<dots> \<le> D * (11 / 10 + 1 / 10 ^ 12) * u"
    using hi u by (intro mult_right_mono) simp_all
  also have "\<dots> = D * ((11 / 10 + 1 / 10 ^ 12) * u)" by simp
  also have "\<dots> \<le> D * (11 / 10 + 1 / 10 ^ 9)"
    using D by (intro mult_left_mono) (simp_all add: u_def)
  finally have rhi: "r \<le> D * (11 / 10 + 1 / 10 ^ 9)" .
  have "D * (9 / 10 - 1 / 10 ^ 9) \<le> D * ((9 / 10 - 1 / 10 ^ 12) * (1 - w))"
    using D by (intro mult_left_mono) (simp_all add: w_def)
  also have "\<dots> = D * (9 / 10 - 1 / 10 ^ 12) * (1 - w)" by simp
  also have "\<dots> \<le> (D + j) * (1 - w)"
    using lo by (intro mult_right_mono) (simp_all add: w_def)
  also have "\<dots> \<le> r" using err uv(2) by linarith
  finally have rlo: "D * (9 / 10 - 1 / 10 ^ 9) \<le> r" .
  have "r - 1 < rat_of_int \<lfloor>r\<rfloor>" "rat_of_int \<lfloor>r\<rfloor> \<le> r" by linarith+
  with rlo rhi have "D * (9 / 10 - 1 / 10 ^ 9) - 1 < rat_of_int \<lfloor>r\<rfloor>"
    "rat_of_int \<lfloor>r\<rfloor> \<le> D * (11 / 10 + 1 / 10 ^ 9)" by linarith+
  then show ?thesis unfolding eq D_def by simp
qed

text \<open>
  The largest double below 1 yields 5500 at \<open>retryCount = 0\<close>: the sum
  \<^verbatim>\<open>delay + jitter\<close> is rounded up to 5500 before \<^verbatim>\<open>Math.floor\<close> is applied.
\<close>

lemma calculateBackoffDelay_largest_random:
  "calculateBackoffDelay (1 - 1 / 2 ^ 53) 0 = 5500"
  by (simp add: calculateBackoffDelay_def double_eval EXPONENTIAL_BACKOFF_BASE_MS_def
        EXPONENTIAL_BACKOFF_MAX_MS_def)

text \<open>
  Claim C6. The backoff calculator returns \<open>min (5000 * 2 ^ retryCount) 300000\<close> jittered
  by plus or minus 20 percent. The code computes the un-jittered delay as claimed, but
  its jitter is a tenth of the delay at most: at \<open>retryCount = 0\<close> the delay is 5000, and
  the smallest value of \<^verbatim>\<open>Math.random()\<close>, 0, yields 4500 (not 4000), the middle value
  yields 5000, and the value 0.999 yields 5499 (nowhere near 6000); at \<open>retryCount = 10\<close>
  the delay is capped at 300000 and the value 0 yields 270000.
\<close>

theorem calculateBackoffDelay_jitter_evaluated:
  "calculateBackoffDelay 0 0 = 4500
   \<and> calculateBackoffDelay (1 / 2) 0 = 5000
   \<and> calculateBackoffDelay (999 / 1000) 0 = 5499
   \<and> calculateBackoffDelay 0 10 = 270000"
  by (simp add: calculateBackoffDelay_def double_eval EXPONENTIAL_BACKOFF_BASE_MS_def
        EXPONENTIAL_BACKOFF_MAX_MS_def)

section \<open>The multi-pass quality loop\<close>

lemma generation_passes_of_phase:
  assumes "\<not> fst (isCircuitBroken s)" and "queue s = item # rest" and "orchestrator s"
    and "priorityOnlyMode opts \<or> source item = manual"
  shows "generatorCalls (runGenerationPhase w opts s) \<le> generatorCalls s + 3"
    and "k < 3 \<Longrightarrow> belowTarget w (extractKeyword w (url item)) (calls s) k \<Longrightarrow>
         passQuality w (extractKeyword w (url item)) (calls s + k) = Some v \<Longrightarrow> 90 \<le> v \<Longrightarrow>
           generatorCalls (runGenerationPhase w opts s) = generatorCalls s + k + 1"
    and "k + 1 < 3 \<Longrightarrow> belowTarget w (extractKeyword w (url item)) (calls s) (Suc k) \<Longrightarrow>
           generatorCalls s + k + 2 \<le> generatorCalls (runGenerationPhase w opts s)"
proof -
  obtain s1 where s1: "calls s1 = calls s" "generatorCalls s1 = generatorCalls s"
    and run: "generatorCalls (runGenerationPhase w opts s)
               = generatorCalls (snd (generationPasses w (extractKeyword w (url item))
                   MAX_QUALITY_IMPROVEMENT_PASSES None 0 0 s1))"
    using runGenerationPhase_generatorCalls [OF assms(1,2,3), of w opts] assms(4) by auto
  show "generatorCalls (runGenerationPhase w opts s) \<le> generatorCalls s + 3"
    using generatorCalls_bound [of w "extractKeyword w (url item)"
            MAX_QUALITY_IMPROVEMENT_PASSES None 0 0 s1]
    by (simp add: run s1 MAX_QUALITY_IMPROVEMENT_PASSES_def)
  show "generatorCalls (runGenerationPhase w opts s) = generatorCalls s + k + 1"
    if "k < 3" "belowTarget w (extractKeyword w (url item)) (calls s) k"
      "passQuality w (extractKeyword w (url item)) (calls s + k) = Some v" "90 \<le> v"
    using stops_at_target [of 0 k MAX_QUALITY_IMPROVEMENT_PASSES w
            "extractKeyword w (url item)" s1 v None 0] that
    by (simp add: run s1 MAX_QUALITY_IMPROVEMENT_PASSES_def MIN_QUALITY_SCORE_def)
  show "generatorCalls s + k + 2 \<le> generatorCalls (runGenerationPhase w opts s)"
    if "k + 1 < 3" "belowTarget w (extractKeyword w (url item)) (calls s) (Suc k)"
    using continues_below_target [of 0 k MAX_QUALITY_IMPROVEMENT_PASSES w
            "extractKeyword w (url item)" s1 None 0] that
    by (simp add: run s1 MAX_QUALITY_IMPROVEMENT_PASSES_def)
qed

text \<open>
  Claim C1, as stated: with a priority item, three passes at most and a configured quality
  threshold of 70, the loop stops the moment a pass returns a score of at least 70. It
  does not: the early exit compares the score with the engine's fixed target of 90
  (\<^verbatim>\<open>MIN_QUALITY_SCORE\<close>), not with the configured threshold. With a generator that returns
  75 on every pass and the threshold configured to 70, the phase calls the generator
  three times.
\<close>

theorem early_stop_at_configured_threshold_counterexample:
  "qualityThreshold (config (exOptions True False [])) = 70
   \<and> passQuality (exWorld (exScores [75, 75, 75]) (Response True 200 None) 40)
        (extractKeyword (exWorld (exScores [75, 75, 75]) (Response True 200 None) 40)
           (url (exItem ''https://site/p'' high 0 0))) 0 = Some 75
   \<and> generatorCalls (runGenerationPhase (exWorld (exScores [75, 75, 75]) (Response True 200 None) 40)
        (exOptions True False []) (exRunning [exItem ''https://site/p'' high 0 0])) = 3"
proof -
  let ?w = "exWorld (exScores [75, 75, 75]) (Response True 200 None) 40"
  let ?item = "exItem ''https://site/p'' high 0 0"
  have pri: "priorityOnlyMode (exOptions True False []) \<or> source ?item = manual"
    by (simp add: exOptions_def)
  have below: "belowTarget ?w (extractKeyword ?w (url ?item)) (calls (exRunning [?item])) (Suc 1)"
    by (simp add: exWorld_passQuality exRunning_ready belowTarget_Suc MIN_QUALITY_SCORE_def
          eval_nat_numeral)
  have ready: "\<not> fst (isCircuitBroken (exRunning [?item]))"
    "queue (exRunning [?item]) = ?item # []" "orchestrator (exRunning [?item])"
    by (simp_all add: exRunning_ready)
  have "generatorCalls (runGenerationPhase ?w (exOptions True False []) (exRunning [?item])) \<le> 3"
    using generation_passes_of_phase(1) [OF ready pri, where w = ?w]
    by (simp add: exRunning_ready)
  moreover have "3 \<le> generatorCalls (runGenerationPhase ?w (exOptions True False [])
                           (exRunning [?item]))"
    using generation_passes_of_phase(3) [OF ready pri, where w = ?w and k = 1] below
    by (simp add: exRunning_ready)
  ultimately show ?thesis
    by (simp add: exWorld_passQuality exOptions_def exConfig_def)
qed

text \<open>
  Claim C1, amended. In the Generate phase, for a priority or manual item (three passes
  at most), the multi-pass loop calls the content generator at most three times; it stops
  the moment a pass returns a quality score of at least 90, the engine's fixed target,
  whatever the configured quality threshold is: when the first \<open>k\<close> passes return less
  than 90 and the next one at least 90, exactly \<open>k + 1\<close> calls are made. A pass that
  returns a score below 90 (60, say) leads to a further pass unless the maximum of three
  has been reached: when the first \<open>k + 1\<close> passes all return less than 90 and \<open>k + 1 < 3\<close>,
  at least \<open>k + 2\<close> calls are made. The loop itself sleeps 2000 ms between passes: it has
  paused \<open>k\<close> times when pass \<open>k + 1\<close> reaches the target, and at least \<open>k + 1\<close> times when
  \<open>k + 1\<close> passes stay below it and a pass is left.
\<close>

theorem generation_passes_stop_at_target:
  assumes "\<not> fst (isCircuitBroken s)" and "queue s = item # rest" and "orchestrator s"
    and "priorityOnlyMode opts \<or> source item = manual"
  shows "generatorCalls (runGenerationPhase w opts s) \<le> generatorCalls s + 3
    \<and> (k < 3 \<and> belowTarget w (extractKeyword w (url item)) (calls s) k
          \<and> passQuality w (extractKeyword w (url item)) (calls s + k) = Some v \<and> 90 \<le> v
        \<longrightarrow> generatorCalls (runGenerationPhase w opts s) = generatorCalls s + k + 1)
    \<and> (k + 1 < 3 \<and> belowTarget w (extractKeyword w (url item)) (calls s) (Suc k)
        \<longrightarrow> generatorCalls s + k + 2 \<le> generatorCalls (runGenerationPhase w opts s))
    \<and> (k < 3 \<and> belowTarget w kw (calls t) k \<and> passQuality w kw (calls t + k) = Some v \<and> 90 \<le> v
        \<longrightarrow> pauses (snd (generationPasses w kw MAX_QUALITY_IMPROVEMENT_PASSES None 0 0 t))
              = pauses t + k)
    \<and> (k + 1 < 3 \<and> belowTarget w kw (calls t) (Suc k)
        \<longrightarrow> pauses t + k + 1
              \<le> pauses (snd (generationPasses w kw MAX_QUALITY_IMPROVEMENT_PASSES None 0 0 t)))"
proof -
  have "pauses (snd (generationPasses w kw MAX_QUALITY_IMPROVEMENT_PASSES None 0 0 t)) = pauses t + k"
    if "k < 3" "belowTarget w kw (calls t) k" "passQuality w kw (calls t + k) = Some v" "90 \<le> v"
    using stops_at_target [of 0 k MAX_QUALITY_IMPROVEMENT_PASSES w kw t v None 0] that
    by (simp add: MAX_QUALITY_IMPROVEMENT_PASSES_def MIN_QUALITY_SCORE_def)
  moreover have "pauses t + k + 1
       \<le> pauses (snd (generationPasses w kw MAX_QUALITY_IMPROVEMENT_PASSES None 0 0 t))"
    if "k + 1 < 3" "belowTarget w kw (calls t) (Suc k)"
    using continues_below_target [of 0 k MAX_QUALITY_IMPROVEMENT_PASSES w kw t None 0] that
    by (simp add: MAX_QUALITY_IMPROVEMENT_PASSES_def)
  ultimately show ?thesis
    using generation_passes_of_phase(1) [OF assms, where w = w]
      generation_passes_of_phase(2) [OF assms, where w = w and k = k and v = v]
      generation_passes_of_phase(3) [OF assms, where w = w and k = k]
    by blast
qed

theorem generation_passes_stop_at_target_witness:
  "\<not> fst (isCircuitBroken (exRunning [exItem ''https://site/p'' high 0 0]))
   \<and> queue (exRunning [exItem ''https://site/p'' high 0 0]) = exItem ''https://site/p'' high 0 0 # []
   \<and> orchestrator (exRunning [exItem ''https://site/p'' high 0 0])
   \<and> priorityOnlyMode (exOptions True False [])
   \<and> belowTarget (exWorld (exScores [60, 95, 95]) (Response True 200 None) 40)
        (extractKeyword (exWorld (exScores [60, 95, 95]) (Response True 200 None) 40)
           (url (exItem ''https://site/p'' high 0 0))) 0 1
   \<and> generatorCalls (runGenerationPhase (exWorld (exScores [60, 95, 95]) (Response True 200 None) 40)
        (exOptions True False []) (exRunning [exItem ''https://site/p'' high 0 0])) = 2
   \<and> pauses (snd (generationPasses (exWorld (exScores [60, 95, 95]) (Response True 200 None) 40)
        ''keyword'' MAX_QUALITY_IMPROVEMENT_PASSES None 0 0
        (exRunning [exItem ''https://site/p'' high 0 0]))) = 1"
proof -
  let ?w = "exWorld (exScores [60, 95, 95]) (Response True 200 None) 40"
  let ?item = "exItem ''https://site/p'' high 0 0"
  have pri: "priorityOnlyMode (exOptions True False []) \<or> source ?item = manual"
    by (simp add: exOptions_def)
  have below: "belowTarget ?w kw 0 (Suc 0)" for kw
    by (simp add: exWorld_passQuality belowTarget_Suc MIN_QUALITY_SCORE_def)
  have ready: "\<not> fst (isCircuitBroken (exRunning [?item]))"
    "queue (exRunning [?item]) = ?item # []" "orchestrator (exRunning [?item])"
    by (simp_all add: exRunning_ready)
  show ?thesis
    using generation_passes_stop_at_target [OF ready pri, where w = ?w and k = 1 and v = 95
            and kw = "''keyword''" and t = "exRunning [?item]"] below
    by (simp add: exRunning_ready exWorld_passQuality exOptions_def)
qed

section \<open>One queue entry per url\<close>

text \<open>
  The two places that insert a new item look for the url in the queue first: inserting
  a url that is already queued, in the Score phase or in priority-queue initialisation,
  leaves the queue as it is. Priority-queue initialisation yields a queue without repeated
  urls, and the Score phase and the Generate phase of one loop keep a queue free of them.
\<close>

lemma insert_sites_check_url:
  "(u \<in> url ` set (queue s)
      \<longrightarrow> queue (scoreUrl w opts u s) = queue s
          \<and> queue (enqueuePriorityUrl w opts (u, p) s) = queue s)
   \<and> distinct (map url (queue (initializePriorityQueue w opts s)))
   \<and> (distinct (map url (queue s))
      \<longrightarrow> distinct (map url (queue (runScoringPhase w opts s)))
          \<and> distinct (map url (queue (runGenerationPhase w opts s))))"
proof -
  have "queue (scoreUrl w opts u s) = queue s" if "u \<in> url ` set (queue s)"
    using queue_scoreUrl [of w opts u s] that by auto
  moreover have "queue (enqueuePriorityUrl w opts (u, p) s) = queue s"
    if "u \<in> url ` set (queue s)"
    using queue_enqueuePriorityUrl [of w opts "(u, p)" s] that by auto
  ultimately show ?thesis
    by (simp add: initializePriorityQueue_distinct runScoringPhase_distinct
          runGenerationPhase_distinct)
qed

text \<open>
  The requeue in the \<^verbatim>\<open>catch\<close> block of \<^verbatim>\<open>runGenerationPhase\<close> does not look: it pushes
  the failed item whatever the queue holds. In a state whose queue already has an item
  of that url, the url is queued twice afterwards.
\<close>

lemma requeue_does_not_check_url:
  assumes "retryCount item < retryAttempts (config opts)"
    and "url item \<in> url ` set (queue s)"
  shows "\<not> distinct (map url (queue (generationFailed w opts item st e s)))"
  using assms generationFailed_retry [of item opts w st e s]
  by (simp add: distinct_urls_sortQueue)

lemmas restart_run_defs =
  start_def mainLoopBody_def runGenerationPhase_def generationAttempt_def generationFailed_def
  initializePriorityQueue_def initializeOrchestrator_def enqueuePriorityUrl_def logAll_def
  isExcluded_def isCircuitBroken_def isWithinActiveHours_def recordFailure_def
  extractKeyword_def isWordChar_def upperChar_def messageOf_def getDefaultStats_def calculateNextScan_def signalAborted_def
  stop_def sleep_def called_def await_def effect_defs sortQueue_def compareItems_def
  MAX_QUALITY_IMPROVEMENT_PASSES_def CIRCUIT_BREAKER_THRESHOLD_def
  exRestartWorld_def exRestartOptions_def exWorld_def exOptions_def exConfig_def exScores_def
  exItem_def newEngine_def exCaught_def Let_def

text \<open>
  Claim C3. A url appears at most once in the queue at any time. The code breaks this when
  the host restarts the engine while a generator call is pending. \<^verbatim>\<open>start()\<close> on a new
  engine in priority-only mode queues the one priority url; the first iteration of the
  loop takes the item from the queue and calls the generator, and its \<^verbatim>\<open>catch\<close> block is
  entered in the state \<open>exCaught\<close>, whose queue is empty; left alone, it requeues the item
  and the queue holds the url once. If the host calls \<^verbatim>\<open>stop()\<close> and \<^verbatim>\<open>start()\<close> while
  that call is pending, \<^verbatim>\<open>start()\<close> is accepted and queues the url again; the second loop
  finds itself outside the active hours and sleeps, so that the url stays queued. The
  \<^verbatim>\<open>catch\<close> block of the first loop then pushes its item, with retry count 1, behind the
  new one: the queue holds the url twice.
\<close>

theorem requeue_after_restart_duplicates_url:
  "snd (start 1 exRestartWorld exRestartOptions (newEngine 0))
     = generationFailed exRestartWorld exRestartOptions (exItem ''https://site/a'' high 0 0) 0
         (Error_msg ''generator unavailable'') exCaught
   \<and> queue exCaught = []
   \<and> map url (queue (snd (start 1 exRestartWorld exRestartOptions (newEngine 0))))
       = [''https://site/a'']
   \<and> fst (start 1 exRestartWorld exRestartOptions (stop exCaught)) = Inr ()
   \<and> map url (queue (snd (start 1 exRestartWorld exRestartOptions (stop exCaught))))
       = [''https://site/a'']
   \<and> map url (queue (generationFailed exRestartWorld exRestartOptions
                        (exItem ''https://site/a'' high 0 0) 0
                        (Error_msg ''generator unavailable'')
                        (snd (start 1 exRestartWorld exRestartOptions (stop exCaught)))))
       = [''https://site/a'', ''https://site/a'']
   \<and> map retryCount (queue (generationFailed exRestartWorld exRestartOptions
                               (exItem ''https://site/a'' high 0 0) 0
                               (Error_msg ''generator unavailable'')
                               (snd (start 1 exRestartWorld exRestartOptions (stop exCaught)))))
       = [0, 1]"
  by (simp add: restart_run_defs generationPasses.simps)

section \<open>The circuit breaker\<close>

lemma runGenerationPhase_resumes:
  assumes "\<not> fst (isCircuitBroken s)" and "queue s = item # rest" and "orchestrator s"
  shows "generatorCalls s + 1 \<le> generatorCalls (runGenerationPhase w opts s)"
proof -
  obtain s1 where s1: "generatorCalls s1 = generatorCalls s"
    and run: "generatorCalls (runGenerationPhase w opts s)
               = generatorCalls (snd (generationPasses w (extractKeyword w (url item))
                   (if priorityOnlyMode opts \<or> source item = manual
                    then MAX_QUALITY_IMPROVEMENT_PASSES else 1) None 0 0 s1))"
    using runGenerationPhase_generatorCalls [OF assms, of w opts] by auto
  have "0 < (if priorityOnlyMode opts \<or> source item = manual
             then MAX_QUALITY_IMPROVEMENT_PASSES else 1)"
    by (simp add: MAX_QUALITY_IMPROVEMENT_PASSES_def)
  from at_least_one_pass [OF this, of s1 w "extractKeyword w (url item)" None 0]
  show ?thesis by (simp add: run s1)
qed

text \<open>
  Claim C4. A Generate phase whose generation succeeds leaves \<open>consecutiveFailures\<close> at 0.
  A Generate phase whose generation fails raises the counter by one, and when the counter
  thereby reaches the threshold of 5 the breaker trips: the failure handler, entered at
  time \<open>clock s\<close>, sets the expiry to \<open>clock s + 600000\<close>, and the phase ends with an expiry
  set; below the threshold none is set. While the expiry lies in the future the phase
  only logs a warning and sleeps 60000 ms: it pops no item and calls the generator not at
  all. Once the expiry has passed, the check clears it and resets the counter to 0, and
  the phase takes the next item and calls the generator again.
\<close>

theorem circuit_breaker_trips_and_recovers:
  "(\<not> fst (isCircuitBroken s) \<and> queue s = item # rest \<and> \<not> generationFails w opts item s
      \<longrightarrow> consecutiveFailures (runGenerationPhase w opts s) = 0)
   \<and> (\<not> fst (isCircuitBroken s) \<and> queue s = item # rest \<and> generationFails w opts item s
      \<longrightarrow> consecutiveFailures (runGenerationPhase w opts s)
            = consecutiveFailures (snd (isCircuitBroken s)) + 1
          \<and> (5 \<le> consecutiveFailures (snd (isCircuitBroken s)) + 1
               \<longrightarrow> circuitBrokenUntil (runGenerationPhase w opts s) \<noteq> None)
          \<and> (consecutiveFailures (snd (isCircuitBroken s)) + 1 < 5
               \<longrightarrow> circuitBrokenUntil (runGenerationPhase w opts s) = None))
   \<and> (5 \<le> consecutiveFailures s + 1
      \<longrightarrow> circuitBrokenUntil (generationFailed w opts item st e s)
            = Some (clock s + 600000))
   \<and> (circuitBrokenUntil s = Some t \<and> clock s < t
      \<longrightarrow> runGenerationPhase w opts s = sleep w 60000 (log warning ''Circuit breaker active'' s)
          \<and> queue (runGenerationPhase w opts s) = queue s
          \<and> generatorCalls (runGenerationPhase w opts s) = generatorCalls s
          \<and> circuitBrokenUntil (runGenerationPhase w opts s) = Some t)
   \<and> (circuitBrokenUntil s = Some t \<and> t \<le> clock s
      \<longrightarrow> \<not> fst (isCircuitBroken s)
          \<and> consecutiveFailures (snd (isCircuitBroken s)) = 0
          \<and> circuitBrokenUntil (snd (isCircuitBroken s)) = None
          \<and> (queue s = item # rest \<and> orchestrator s
               \<longrightarrow> generatorCalls s + 1 \<le> generatorCalls (runGenerationPhase w opts s)))"
proof -
  have ok: "consecutiveFailures (runGenerationPhase w opts s) = 0"
    if "\<not> fst (isCircuitBroken s)" "queue s = item # rest" "\<not> generationFails w opts item s"
    using runGenerationPhase_success [OF that] by simp
  have bad: "consecutiveFailures (runGenerationPhase w opts s)
            = consecutiveFailures (snd (isCircuitBroken s)) + 1
          \<and> (5 \<le> consecutiveFailures (snd (isCircuitBroken s)) + 1
               \<longrightarrow> circuitBrokenUntil (runGenerationPhase w opts s) \<noteq> None)
          \<and> (consecutiveFailures (snd (isCircuitBroken s)) + 1 < 5
               \<longrightarrow> circuitBrokenUntil (runGenerationPhase w opts s) = None)"
    if h: "\<not> fst (isCircuitBroken s)" "queue s = item # rest" "generationFails w opts item s"
  proof -
    obtain e' s5 where "runGenerationPhase w opts s = generationFailed w opts item (clock s) e' s5"
      "consecutiveFailures s5 = consecutiveFailures (snd (isCircuitBroken s))"
      "circuitBrokenUntil s5 = None"
      using runGenerationPhase_failure [OF h] by blast
    then show ?thesis by (simp add: generationFailed_frame CIRCUIT_BREAKER_THRESHOLD_def)
  qed
  have trip: "circuitBrokenUntil (generationFailed w opts item st e s) = Some (clock s + 600000)"
    if "5 \<le> consecutiveFailures s + 1"
    using that
    by (simp add: generationFailed_frame CIRCUIT_BREAKER_THRESHOLD_def
          CIRCUIT_BREAKER_RESET_MS_def)
  have blocked: "runGenerationPhase w opts s = sleep w 60000 (log warning ''Circuit breaker active'' s)"
    if "circuitBrokenUntil s = Some t" "clock s < t"
    using that by (intro runGenerationPhase_blocked) (simp add: isCircuitBroken_iff)
  have expired: "\<not> fst (isCircuitBroken s)
          \<and> consecutiveFailures (snd (isCircuitBroken s)) = 0
          \<and> circuitBrokenUntil (snd (isCircuitBroken s)) = None"
    if "circuitBrokenUntil s = Some t" "t \<le> clock s"
    using that by (simp add: isCircuitBroken_def)
  have resumes: "generatorCalls s + 1 \<le> generatorCalls (runGenerationPhase w opts s)"
    if "circuitBrokenUntil s = Some t" "t \<le> clock s" "queue s = item # rest" "orchestrator s"
    using expired [OF that(1,2)] that(3,4) by (intro runGenerationPhase_resumes) simp_all
  show ?thesis
    using ok bad trip blocked expired resumes by (auto simp: blocked)
qed

theorem circuit_breaker_trips_and_recovers_witness:
  "\<not> generationFails (exWorld (exScores [95]) (Response True 200 None) 40)
        (exOptions True False []) (exItem ''https://site/p'' high 0 0)
        (exRunning [exItem ''https://site/p'' high 0 0])
   \<and> consecutiveFailures
        (runGenerationPhase (exWorld (exScores [95]) (Response True 200 None) 40)
           (exOptions True False []) (exRunning [exItem ''https://site/p'' high 0 0])) = 0
   \<and> generationFails (exWorld (exScores []) (Response True 200 None) 40)
        (exOptions True False []) (exItem ''https://site/p'' high 0 0)
        ((exRunning [exItem ''https://site/p'' high 0 0])\<lparr>consecutiveFailures := 4\<rparr>)
   \<and> consecutiveFailures
        (runGenerationPhase (exWorld (exScores []) (Response True 200 None) 40)
           (exOptions True False [])
           ((exRunning [exItem ''https://site/p'' high 0 0])\<lparr>consecutiveFailures := 4\<rparr>)) = 5
   \<and> circuitBrokenUntil
        (runGenerationPhase (exWorld (exScores []) (Response True 200 None) 40)
           (exOptions True False [])
           ((exRunning [exItem ''https://site/p'' high 0 0])\<lparr>consecutiveFailures := 4\<rparr>)) \<noteq> None
   \<and> queue
        (runGenerationPhase (exWorld (exScores [95]) (Response True 200 None) 40)
           (exOptions True False [])
           ((exRunning [exItem ''https://site/p'' high 0 0])
              \<lparr>consecutiveFailures := 5, circuitBrokenUntil := Some 600000\<rparr>))
       = [exItem ''https://site/p'' high 0 0]
   \<and> generatorCalls
        (runGenerationPhase (exWorld (exScores [95]) (Response True 200 None) 40)
           (exOptions True False [])
           ((exRunning [exItem ''https://site/p'' high 0 0])
              \<lparr>consecutiveFailures := 5, circuitBrokenUntil := Some 600000\<rparr>)) = 0
   \<and> 1 \<le> generatorCalls
        (runGenerationPhase (exWorld (exScores [95]) (Response True 200 None) 40)
           (exOptions True False [])
           ((exRunning [exItem ''https://site/p'' high 0 0])
              \<lparr>consecutiveFailures := 5, circuitBrokenUntil := Some 0\<rparr>))"
proof -
  let ?item = "exItem ''https://site/p'' high 0 0"
  let ?good = "exWorld (exScores [95]) (Response True 200 None) 40"
  let ?bad = "exWorld (exScores []) (Response True 200 None) 40"
  let ?opts = "exOptions True False []"
  have fine: "\<not> generationFails ?good ?opts ?item (exRunning [?item])"
    by (simp add: generationFails_def exRunning_ready exWorld_passQuality
          MAX_QUALITY_IMPROVEMENT_PASSES_def MIN_QUALITY_SCORE_def eval_nat_numeral)
  have fails: "generationFails ?bad ?opts ?item ((exRunning [?item])\<lparr>consecutiveFailures := 4\<rparr>)"
    by (simp add: generationFails_def exRunning_def newEngine_def exWorld_passQuality
          MAX_QUALITY_IMPROVEMENT_PASSES_def eval_nat_numeral)
  have four: "\<not> fst (isCircuitBroken ((exRunning [?item])\<lparr>consecutiveFailures := 4\<rparr>))"
    "queue ((exRunning [?item])\<lparr>consecutiveFailures := 4\<rparr>) = ?item # []"
    "consecutiveFailures (snd (isCircuitBroken ((exRunning [?item])\<lparr>consecutiveFailures := 4\<rparr>))) = 4"
    by (simp_all add: exRunning_def newEngine_def isCircuitBroken_def)
  let ?cooling = "(exRunning [?item])\<lparr>consecutiveFailures := 5,
                     circuitBrokenUntil := Some 600000\<rparr>"
  let ?expired = "(exRunning [?item])\<lparr>consecutiveFailures := 5, circuitBrokenUntil := Some 0\<rparr>"
  have cooling: "circuitBrokenUntil ?cooling = Some 600000" "clock ?cooling < 600000"
    "queue ?cooling = [?item]" "generatorCalls ?cooling = 0"
    by (simp_all add: exRunning_def newEngine_def generatorCalls_def)
  have expired: "circuitBrokenUntil ?expired = Some 0" "0 \<le> clock ?expired"
    "queue ?expired = ?item # []" "orchestrator ?expired" "generatorCalls ?expired = 0"
    by (simp_all add: exRunning_def newEngine_def generatorCalls_def)
  have A: "consecutiveFailures (runGenerationPhase ?good ?opts (exRunning [?item])) = 0"
    using circuit_breaker_trips_and_recovers
            [where s = "exRunning [?item]" and item = ?item and rest = "[]" and w = ?good
               and opts = ?opts] fine
    by (simp add: exRunning_ready)
  have B: "consecutiveFailures (runGenerationPhase ?bad ?opts
               ((exRunning [?item])\<lparr>consecutiveFailures := 4\<rparr>)) = 5
           \<and> circuitBrokenUntil (runGenerationPhase ?bad ?opts
               ((exRunning [?item])\<lparr>consecutiveFailures := 4\<rparr>)) \<noteq> None"
    using circuit_breaker_trips_and_recovers
            [where s = "(exRunning [?item])\<lparr>consecutiveFailures := 4\<rparr>" and item = ?item
               and rest = "[]" and w = ?bad and opts = ?opts] fails four
    by simp
  have C: "queue (runGenerationPhase ?good ?opts ?cooling) = [?item]
           \<and> generatorCalls (runGenerationPhase ?good ?opts ?cooling) = 0"
    using circuit_breaker_trips_and_recovers
            [where s = ?cooling and t = 600000 and w = ?good and opts = ?opts] cooling
    by simp
  have D: "1 \<le> generatorCalls (runGenerationPhase ?good ?opts ?expired)"
    using circuit_breaker_trips_and_recovers
            [where s = ?expired and t = 0 and item = ?item and rest = "[]" and w = ?good
               and opts = ?opts] expired
    by simp
  from fine fails A B C D show ?thesis by simp
qed

section \<open>Retries\<close>

lemma start_retries:
  "list_all (\<lambda>q. retryCount q \<le> retryAttempts (config opts)) (queue s)
     \<Longrightarrow> list_all (\<lambda>q. retryCount q \<le> retryAttempts (config opts))
           (queue (snd (start n w opts s)))"
  by (simp add: start_def Let_def mainLoop_retries initializePriorityQueue_retries
        initializeOrchestrator_def effect_defs)

text \<open>
  Claim C5. No queue item's \<open>retryCount\<close> exceeds \<open>config.retryAttempts\<close>: the Generate
  phase and the main loop keep that bound, and it holds in every state reached by
  \<^verbatim>\<open>start()\<close> from a new engine. When the generation for the popped item fails and its
  \<open>retryCount\<close> is strictly below the maximum, the item goes back into the queue with
  \<open>retryCount\<close> raised by one (the queue is re-sorted) and no history entry is written.
  When it fails and \<open>retryCount\<close> has reached the maximum, the item is dropped and exactly
  one history entry is written, with action \<open>error\<close>, for the item's url.
\<close>

theorem retry_count_never_exceeds_maximum:
  "(list_all (\<lambda>q. retryCount q \<le> retryAttempts (config opts)) (queue s)
      \<longrightarrow> list_all (\<lambda>q. retryCount q \<le> retryAttempts (config opts))
            (queue (runGenerationPhase w opts s))
          \<and> list_all (\<lambda>q. retryCount q \<le> retryAttempts (config opts))
              (queue (mainLoop n w opts s)))
   \<and> list_all (\<lambda>q. retryCount q \<le> retryAttempts (config opts))
        (queue (snd (start n w opts (newEngine t))))
   \<and> (\<not> fst (isCircuitBroken s) \<and> queue s = item # rest \<and> generationFails w opts item s
        \<and> retryCount item < retryAttempts (config opts)
      \<longrightarrow> (\<exists>m. queue (runGenerationPhase w opts s)
                 = sortQueue (rest @ [item\<lparr>retryCount := retryCount item + 1,
                                            lastError := Some m\<rparr>]))
          \<and> historyEntries (runGenerationPhase w opts s) = historyEntries s)
   \<and> (\<not> fst (isCircuitBroken s) \<and> queue s = item # rest \<and> generationFails w opts item s
        \<and> retryAttempts (config opts) \<le> retryCount item
      \<longrightarrow> queue (runGenerationPhase w opts s) = rest
          \<and> (\<exists>h. historyEntries (runGenerationPhase w opts s) = historyEntries s @ [h]
                   \<and> h_action h = error \<and> h_url h = url item))"
proof -
  have fresh: "list_all (\<lambda>q. retryCount q \<le> retryAttempts (config opts))
        (queue (snd (start n w opts (newEngine t))))"
    by (rule start_retries) (simp add: newEngine_def)
  have retry: "(\<exists>m. queue (runGenerationPhase w opts s)
                 = sortQueue (rest @ [item\<lparr>retryCount := retryCount item + 1,
                                            lastError := Some m\<rparr>]))
          \<and> historyEntries (runGenerationPhase w opts s) = historyEntries s"
    if h: "\<not> fst (isCircuitBroken s)" "queue s = item # rest" "generationFails w opts item s"
      and below: "retryCount item < retryAttempts (config opts)"
  proof -
    obtain e s5 where run: "runGenerationPhase w opts s = generationFailed w opts item (clock s) e s5"
      and s5: "queue s5 = rest" "historyEntries s5 = historyEntries s"
      using runGenerationPhase_failure [OF h] by blast
    show ?thesis
      using generationFailed_retry [OF below, of w "clock s" e s5] s5
      by (auto simp: run)
  qed
  have exhausted: "queue (runGenerationPhase w opts s) = rest
          \<and> (\<exists>h. historyEntries (runGenerationPhase w opts s) = historyEntries s @ [h]
                   \<and> h_action h = error \<and> h_url h = url item)"
    if h: "\<not> fst (isCircuitBroken s)" "queue s = item # rest" "generationFails w opts item s"
      and reached: "retryAttempts (config opts) \<le> retryCount item"
  proof -
    obtain e s5 where run: "runGenerationPhase w opts s = generationFailed w opts item (clock s) e s5"
      and s5: "queue s5 = rest" "historyEntries s5 = historyEntries s"
      using runGenerationPhase_failure [OF h] by blast
    have "\<not> retryCount item < retryAttempts (config opts)" using reached by simp
    from generationFailed_exhausted [OF this, of w "clock s" e s5] s5
    show ?thesis by (simp add: run emptyHistoryItem_def)
  qed
  show ?thesis
    using fresh retry exhausted
    by (simp add: runGenerationPhase_retries mainLoop_retries)
qed

theorem retry_count_never_exceeds_maximum_witness:
  "generationFails (exWorld (exScores []) (Response True 200 None) 40)
        (exOptions True False []) (exItem ''https://site/p'' high 0 1)
        (exRunning [exItem ''https://site/p'' high 0 1])
   \<and> retryCount (exItem ''https://site/p'' high 0 1) < retryAttempts (config (exOptions True False []))
   \<and> map retryCount (queue (runGenerationPhase (exWorld (exScores []) (Response True 200 None) 40)
           (exOptions True False []) (exRunning [exItem ''https://site/p'' high 0 1]))) = [2]
   \<and> historyEntries (runGenerationPhase (exWorld (exScores []) (Response True 200 None) 40)
           (exOptions True False []) (exRunning [exItem ''https://site/p'' high 0 1])) = []
   \<and> retryAttempts (config (exOptions True False [])) \<le> retryCount (exItem ''https://site/p'' high 0 2)
   \<and> queue (runGenerationPhase (exWorld (exScores []) (Response True 200 None) 40)
           (exOptions True False []) (exRunning [exItem ''https://site/p'' high 0 2])) = []
   \<and> map h_action (historyEntries (runGenerationPhase
           (exWorld (exScores []) (Response True 200 None) 40)
           (exOptions True False []) (exRunning [exItem ''https://site/p'' high 0 2]))) = [error]"
proof -
  let ?bad = "exWorld (exScores []) (Response True 200 None) 40"
  let ?opts = "exOptions True False []"
  have fails: "generationFails ?bad ?opts (exItem ''https://site/p'' high 0 rc)
                 (exRunning [exItem ''https://site/p'' high 0 rc])" for rc
    by (simp add: generationFails_def exRunning_ready exWorld_passQuality
          MAX_QUALITY_IMPROVEMENT_PASSES_def eval_nat_numeral)
  have ready: "\<not> fst (isCircuitBroken (exRunning [exItem ''https://site/p'' high 0 rc]))"
    "queue (exRunning [exItem ''https://site/p'' high 0 rc])
       = exItem ''https://site/p'' high 0 rc # []" for rc
    by (simp_all add: exRunning_ready)
  have limit: "retryAttempts (config ?opts) = 2"
    by (simp add: exOptions_def exConfig_def)
  have A: "map retryCount (queue (runGenerationPhase ?bad ?opts
              (exRunning [exItem ''https://site/p'' high 0 1]))) = [2]
           \<and> historyEntries (runGenerationPhase ?bad ?opts
              (exRunning [exItem ''https://site/p'' high 0 1])) = []"
    using retry_count_never_exceeds_maximum
            [where s = "exRunning [exItem ''https://site/p'' high 0 1]"
               and item = "exItem ''https://site/p'' high 0 1" and rest = "[]"
               and w = ?bad and opts = ?opts and n = 0 and t = 0]
          fails [of 1] ready [of 1] limit
    by (auto simp add: exRunning_ready exItem_def sortQueue_def)
  have B: "queue (runGenerationPhase ?bad ?opts
              (exRunning [exItem ''https://site/p'' high 0 2])) = []
           \<and> map h_action (historyEntries (runGenerationPhase ?bad ?opts
              (exRunning [exItem ''https://site/p'' high 0 2]))) = [error]"
    using retry_count_never_exceeds_maximum
            [where s = "exRunning [exItem ''https://site/p'' high 0 2]"
               and item = "exItem ''https://site/p'' high 0 2" and rest = "[]"
               and w = ?bad and opts = ?opts and n = 0 and t = 0]
          fails [of 2] ready [of 2] limit
    by (auto simp add: exRunning_ready exItem_def)
  from fails [of 1] A B limit show ?thesis by (simp add: exItem_def)
qed

section \<open>A failed publication\<close>

text \<open>
  Whatever the publisher answers, \<^verbatim>\<open>runPublishPhase\<close> writes exactly one history entry, and
  that entry carries no content snapshot; when the publishing attempt fails, the entry has
  action \<open>error\<close> and its message starts with the note that generation succeeded.
\<close>

lemma runPublishPhase_entry:
  "\<exists>h. historyEntries (runPublishPhase w opts item c pt q s) = historyEntries s @ [h]
        \<and> h_generatedContent h = None
        \<and> (isl (fst (publishAttempt w opts item c
                        (log info ''Publishing to WordPress...''
                           (updateState [CurrentPhase (Some publishing)] s))))
             \<longrightarrow> h_action h = error
                 \<and> (\<exists>m. h_error h = Some (''Generated but publish failed: '' @ m)))"
  by (cases "fst (publishAttempt w opts item c
                        (log info ''Publishing to WordPress...''
                           (updateState [CurrentPhase (Some publishing)] s)))")
     (simp_all add: runPublishPhase_history emptyHistoryItem_def)

lemma digitsOf_500: "digitsOf 500 = ''500''"
  by code_simp

text \<open>
  Claim C7. When the publisher fails after a successful generation, exactly one history
  entry with action \<open>error\<close> is recorded, its message says that content was generated but
  publishing failed, and the generated content is retrievable from that entry. The code
  does record exactly one such entry, but without the content: \<^verbatim>\<open>runGenerationPhase\<close>
  builds the snapshot (its comment says it is always stored) and hands it to the history
  only on the paths that do not publish. In the run below the generator returns content
  of quality 95, auto-publish is on and the publisher answers with status 500: the one
  history entry has no \<open>generatedContent\<close>. The same run with auto-publish off stores
  the snapshot.
\<close>

theorem publish_failure_entry_without_snapshot:
  "historyEntries
     (runGenerationPhase (exWorld (exScores [95]) (Response False 500 None) 40)
        (exOptions True True []) (exRunning [exItem ''https://site/p'' high 0 0]))
   = [\<lparr>h_url = ''https://site/p'', h_action = error, h_qualityScore = Some 95,
       h_wordCount = None, h_processingTimeMs = Some 1000, h_wordPressUrl = None,
       h_error = Some ''Generated but publish failed: WordPress API error: 500'',
       h_generatedContent = None\<rparr>]
   \<and> map h_generatedContent
       (historyEntries
          (runGenerationPhase (exWorld (exScores [95]) (Response False 500 None) 40)
             (exOptions True False []) (exRunning [exItem ''https://site/p'' high 0 0])))
     = [Some \<lparr>gc_title = ''Title'', gc_content = ''Body'', gc_seoTitle = ''Seo'',
              gc_metaDescription = ''Meta'', gc_slug = ''https://site/p''\<rparr>]"
  by (simp add: runGenerationPhase_def isCircuitBroken_def exRunning_def newEngine_def
        exItem_def exWorld_def exScores_def exOptions_def exConfig_def exContent_def
        generationAttempt_def generationPasses.simps afterPasses_def runPublishPhase_def
        publishAttempt_def Let_def effect_defs sleep_def called_def await_def
        recordSuccess_def pushCapped_def
        historyEntries_def MIN_QUALITY_SCORE_def MAX_QUALITY_IMPROVEMENT_PASSES_def
        falsy_def strOr_def emptyHistoryItem_def messageOf_def digitsOf_500
        extractKeyword_def getSlug_def wordCountOf_def)

section \<open>Priority-only mode and the Scan phase\<close>

text \<open>
  Every run of \<^verbatim>\<open>runScanPhase\<close>, in either mode, leaves a scan event in the trace, so a
  trace without new scan events shows that the procedure was not called.
\<close>

lemma runScanPhase_leaves_scan_event:
  "scanEvents (runScanPhase opts s) \<noteq> scanEvents s"
  by (simp add: runScanPhase_def Let_def getDefaultStats_def)

lemma start_scan:
  "priorityOnlyMode opts \<Longrightarrow>
     scanEvents (snd (start n w opts s)) = scanEvents s
     \<and> lastScanTime (snd (start n w opts s)) = lastScanTime s"
  by (simp add: start_def Let_def mainLoop_scan initializePriorityQueue_scan
        initializeOrchestrator_def)

text \<open>
  Claim C8. With priority-only mode active the Scan phase is never invoked: however many
  iterations the main loop runs, from whatever state, and also when it is entered through
  \<^verbatim>\<open>start()\<close>, the trace gains no scan event and \<open>lastScanTime\<close> keeps its value. The
  scan procedure itself, if called in that mode, only logs a warning: it returns the
  state with that one log entry added, so it records no scan time and sends no state
  update.
\<close>

theorem priority_only_never_scans:
  "priorityOnlyMode opts \<Longrightarrow>
     scanEvents (mainLoop n w opts s) = scanEvents s
     \<and> lastScanTime (mainLoop n w opts s) = lastScanTime s
     \<and> scanEvents (snd (start n w opts s)) = scanEvents s
     \<and> lastScanTime (snd (start n w opts s)) = lastScanTime s
     \<and> runScanPhase opts s = log warning ''Priority Only Mode Active'' s
     \<and> lastScanTime (runScanPhase opts s) = lastScanTime s
     \<and> core (runScanPhase opts s) = core s
     \<and> trace (runScanPhase opts s) = trace s @ [Log warning ''Priority Only Mode Active'']"
  by (simp add: mainLoop_scan start_scan runScanPhase_def effect_defs core_def)

theorem priority_only_never_scans_witness:
  "priorityOnlyMode (exOptions True False [(''https://site/p'', high)])
   \<and> scanEvents (snd (start 4 (exWorld (exScores [95]) (Response True 200 None) 40)
                       (exOptions True False [(''https://site/p'', high)]) (newEngine 0))) = []
   \<and> lastScanTime (snd (start 4 (exWorld (exScores [95]) (Response True 200 None) 40)
                       (exOptions True False [(''https://site/p'', high)]) (newEngine 0))) = None
   \<and> lastScanTime (runScanPhase (exOptions True False [(''https://site/p'', high)])
                      (newEngine 0)) = None"
  using priority_only_never_scans
          [where opts = "exOptions True False [(''https://site/p'', high)]" and n = 4
             and w = "exWorld (exScores [95]) (Response True 200 None) 40" and s = "newEngine 0"]
  by (simp add: exOptions_def newEngine_def scanEvents_def)

section \<open>The Score phase\<close>

lemma runScoringPhase_analyzed:
  "\<exists>k\<le>20. analyzedUrls (runScoringPhase w opts s)
      = analyzedUrls s @
        take k (filter (\<lambda>u. \<not> isExcluded w opts u)
                  (if priorityOnlyMode opts then map fst (priorityUrls opts)
                   else sitemapUrls opts))"
proof -
  define cands where
    "cands = filter (\<lambda>u. \<not> isExcluded w opts u)
               (if priorityOnlyMode opts then map fst (priorityUrls opts) else sitemapUrls opts)"
  show ?thesis
  proof (cases "cands = []")
    case True
    then have "analyzedUrls (runScoringPhase w opts s) = analyzedUrls s @ take 0 cands"
      by (simp add: runScoringPhase_def Let_def cands_def)
    then show ?thesis unfolding cands_def by blast
  next
    case False
    define s2 where
      "s2 = log info ''Scoring page health...'' (updateState [CurrentPhase (Some scoring)] s)"
    obtain k where k: "k \<le> length (take 20 cands)"
      "analyzedUrls (scoreUrls w opts (take 20 cands) s2) = analyzedUrls s2 @ take k (take 20 cands)"
      using analyzedUrls_scoreUrls [of "take 20 cands" w opts s2] by blast
    have "analyzedUrls s2 = analyzedUrls s"
      by (simp add: s2_def)
    moreover have "analyzedUrls (runScoringPhase w opts s)
        = analyzedUrls (scoreUrls w opts (take 20 cands) s2)"
      using False
      by (simp add: runScoringPhase_def Let_def cands_def [symmetric] s2_def [symmetric])
    moreover have k20: "k \<le> 20"
      using k(1) by simp
    moreover have "take k (take 20 cands) = take k cands"
      using k20 by (simp add: min_absorb1)
    ultimately have "k \<le> 20 \<and> analyzedUrls (runScoringPhase w opts s) = analyzedUrls s @ take k cands"
      using k(2) by simp
    then show ?thesis unfolding cands_def by blast
  qed
qed

lemma runScoringPhase_queued:
  "url ` set (queue (runScoringPhase w opts s))
     \<subseteq> url ` set (queue s) \<union>
        set (take 20 (filter (\<lambda>u. \<not> isExcluded w opts u)
                        (if priorityOnlyMode opts then map fst (priorityUrls opts)
                         else sitemapUrls opts)))"
  using queue_scoreUrls_urls
          [of w opts "take 20 (filter (\<lambda>u. \<not> isExcluded w opts u)
                        (if priorityOnlyMode opts then map fst (priorityUrls opts)
                         else sitemapUrls opts))"
              "log info ''Scoring page health...''
                 (updateState [CurrentPhase (Some scoring)] s)"]
  by (simp add: runScoringPhase_def Let_def set_sortQueue)

text \<open>
  Claim C10. One invocation of the Score phase analyzes at most 20 candidate urls: the
  list of non-excluded candidates is cut to its first 20 entries before any analyzer
  call. The urls analyzed in the invocation are, in order, the first \<open>k\<close> candidates for
  some \<open>k\<close> up to 20, so at most 20 analyzer calls are made however many candidates
  there are, and every url in the queue afterwards was queued before or is among the
  first 20 candidates: the candidates after the twentieth are neither analyzed nor
  queued.
\<close>

theorem scoring_analyzes_first_twenty:
  "(\<exists>k\<le>20. analyzedUrls (runScoringPhase w opts s)
      = analyzedUrls s @
        take k (filter (\<lambda>u. \<not> isExcluded w opts u)
                  (if priorityOnlyMode opts then map fst (priorityUrls opts)
                   else sitemapUrls opts)))
   \<and> length (analyzedUrls (runScoringPhase w opts s)) \<le> length (analyzedUrls s) + 20
   \<and> url ` set (queue (runScoringPhase w opts s))
        \<subseteq> url ` set (queue s) \<union>
           set (take 20 (filter (\<lambda>u. \<not> isExcluded w opts u)
                           (if priorityOnlyMode opts then map fst (priorityUrls opts)
                            else sitemapUrls opts)))"
proof -
  obtain k where k: "k \<le> 20"
    "analyzedUrls (runScoringPhase w opts s)
      = analyzedUrls s @
        take k (filter (\<lambda>u. \<not> isExcluded w opts u)
                  (if priorityOnlyMode opts then map fst (priorityUrls opts)
                   else sitemapUrls opts))"
    using runScoringPhase_analyzed [of w opts s] by blast
  then have "length (analyzedUrls (runScoringPhase w opts s)) \<le> length (analyzedUrls s) + 20"
    by simp
  with k runScoringPhase_queued [of w opts s] show ?thesis by blast
qed

end
